theory Spec2Isabelle
  imports Complex_Main "HOL-Library.Log_Nat" "HOL-Library.Monad_Syntax"
begin

section \<open>Python numbers\<close>

text \<open>
  \<^verbatim>\<open>video.py\<close> computes with Python's unbounded \<open>int\<close> and with \<open>float\<close> (IEEE 754
  binary64, round to nearest, ties to even). A finite float is represented by the rational
  number it denotes. \<open>fl_raw\<close> rounds a rational to the nearest binary64 value as if the
  exponent range had no upper end (subnormals included); \<open>fl\<close> is \<open>None\<close> where that
  value lies beyond the largest finite double, which is where Python raises
  \<open>OverflowError\<close> or produces an infinity.
\<close>

definition rne :: "rat \<Rightarrow> int" where
  \<comment> \<open>round to the nearest integer, ties to the even one (Python 3 \<open>round(x)\<close>)\<close>
  "rne x =
     (let f = \<lfloor>x\<rfloor>; r = x - of_int f
      in if r < 1 / 2 then f else if 1 / 2 < r then f + 1 else if even f then f else f + 1)"

definition expo :: "rat \<Rightarrow> int" where
  \<comment> \<open>for \<open>0 < x\<close>: the \<open>e\<close> with \<open>2 ^ e \<le> x < 2 ^ (e + 1)\<close>\<close>
  "expo x = (if 1 \<le> x then bitlen \<lfloor>x\<rfloor> - 1 else - bitlen (\<lceil>1 / x\<rceil> - 1))"

definition quantum :: "rat \<Rightarrow> int" where
  \<comment> \<open>exponent of the unit in the last place: 53 significant bits, subnormals below \<open>2 ^ -1022\<close>\<close>
  "quantum x = max (expo x - 52) (- 1074)"

definition flp :: "rat \<Rightarrow> rat" where
  "flp x = of_int (rne (x / 2 powi quantum x)) * 2 powi quantum x"

definition fl_raw :: "rat \<Rightarrow> rat" where
  "fl_raw x = (if x = 0 then 0 else if x < 0 then - flp (- x) else flp x)"

definition fl :: "rat \<Rightarrow> rat option" where
  "fl x = (let r = fl_raw x in if \<bar>r\<bar> < 2 ^ 1024 then Some r else None)"

datatype pynum = PInt int | PFloat rat

fun val :: "pynum \<Rightarrow> rat" where
  "val (PInt n) = of_int n"
| "val (PFloat x) = x"

fun to_float :: "pynum \<Rightarrow> rat option" where
  \<comment> \<open>\<open>float(n)\<close>: correctly rounded, \<open>OverflowError\<close> when too large\<close>
  "to_float (PInt n) = fl (of_int n)"
| "to_float (PFloat x) = Some x"

text \<open>
  Arithmetic follows Python's rules: \<open>int\<close> with \<open>int\<close> is exact, \<open>/\<close> on two ints is
  the correctly rounded quotient, and a mixed operation converts the \<open>int\<close> operand to
  \<open>float\<close> first. These operations are the ones of the geometry and of the timeout,
  on finite numbers: \<open>None\<close> stands for \<open>ZeroDivisionError\<close>, for \<open>OverflowError\<close>
  and for a result that is an infinity, which the callers below treat explicitly.
\<close>

fun py_mul :: "pynum \<Rightarrow> pynum \<Rightarrow> pynum option" where
  "py_mul (PInt m) (PInt n) = Some (PInt (m * n))"
| "py_mul a b = do { x \<leftarrow> to_float a; y \<leftarrow> to_float b; map_option PFloat (fl (x * y)) }"

fun py_sub :: "pynum \<Rightarrow> pynum \<Rightarrow> pynum option" where
  "py_sub (PInt m) (PInt n) = Some (PInt (m - n))"
| "py_sub a b = do { x \<leftarrow> to_float a; y \<leftarrow> to_float b; map_option PFloat (fl (x - y)) }"

fun py_truediv :: "pynum \<Rightarrow> pynum \<Rightarrow> pynum option" where
  "py_truediv (PInt m) (PInt n) =
     (if n = 0 then None else map_option PFloat (fl (of_int m / of_int n)))"
| "py_truediv a b =
     (if val b = 0 then None
      else do { x \<leftarrow> to_float a; y \<leftarrow> to_float b; map_option PFloat (fl (x / y)) })"

fun py_abs :: "pynum \<Rightarrow> pynum" where
  "py_abs (PInt n) = PInt \<bar>n\<bar>"
| "py_abs (PFloat x) = PFloat \<bar>x\<bar>"

fun py_int :: "pynum \<Rightarrow> int" where
  \<comment> \<open>\<open>int(x)\<close> truncates towards zero\<close>
  "py_int (PInt n) = n"
| "py_int (PFloat x) = (if 0 \<le> x then \<lfloor>x\<rfloor> else \<lceil>x\<rceil>)"

fun py_round :: "pynum \<Rightarrow> int" where
  "py_round (PInt n) = n"
| "py_round (PFloat x) = rne x"

definition py_lt :: "pynum \<Rightarrow> pynum \<Rightarrow> bool" where
  "py_lt a b = (val a < val b)"

definition py_le :: "pynum \<Rightarrow> pynum \<Rightarrow> bool" where
  "py_le a b = (val a \<le> val b)"

definition py_max :: "pynum \<Rightarrow> pynum \<Rightarrow> pynum" where
  \<comment> \<open>\<open>max(a, b)\<close> returns \<open>a\<close> unless \<open>b > a\<close>\<close>
  "py_max a b = (if py_lt a b then b else a)"

definition float_literal :: "rat \<Rightarrow> pynum" where
  \<comment> \<open>a decimal literal such as \<open>0.01\<close> denotes the nearest double\<close>
  "float_literal x = PFloat (fl_raw x)"


section \<open>Target bitrate\<close>

text \<open>
  The float operations \<open>*\<close>, \<open>-\<close> and \<open>/\<close> of \<^verbatim>\<open>calculate_target_bitrate\<close> do not
  raise when their result leaves the finite range: they give \<open>inf\<close>, \<open>-inf\<close> or \<open>nan\<close>,
  and the clamp at the end compares these with the bounds. \<open>xnum\<close> adds the three
  non-finite floats to the numbers. \<open>None\<close> is an exception: \<open>OverflowError\<close> where an
  \<open>int\<close> operand is too large for \<open>float\<close> or an \<open>int / int\<close> quotient is, and
  \<open>ZeroDivisionError\<close>.
\<close>

datatype xnum = Num pynum | PosInf | NegInf | NaN

definition float_result :: "rat \<Rightarrow> xnum" where
  \<comment> \<open>the float of an operation on finite floats whose exact result is \<open>x\<close>\<close>
  "float_result x =
     (case fl x of Some r \<Rightarrow> Num (PFloat r) | None \<Rightarrow> if 0 < x then PosInf else NegInf)"

fun x_float :: "xnum \<Rightarrow> xnum option" where
  \<comment> \<open>the conversion of an operand of a mixed operation\<close>
  "x_float (Num (PInt n)) = map_option (\<lambda>r. Num (PFloat r)) (fl (of_int n))"
| "x_float x = Some x"

fun float_mul :: "xnum \<Rightarrow> xnum \<Rightarrow> xnum" where
  "float_mul NaN y = NaN"
| "float_mul x NaN = NaN"
| "float_mul (Num a) (Num b) = float_result (val a * val b)"
| "float_mul (Num a) PosInf = (if val a = 0 then NaN else if 0 < val a then PosInf else NegInf)"
| "float_mul (Num a) NegInf = (if val a = 0 then NaN else if 0 < val a then NegInf else PosInf)"
| "float_mul PosInf (Num b) = (if val b = 0 then NaN else if 0 < val b then PosInf else NegInf)"
| "float_mul NegInf (Num b) = (if val b = 0 then NaN else if 0 < val b then NegInf else PosInf)"
| "float_mul PosInf PosInf = PosInf"
| "float_mul PosInf NegInf = NegInf"
| "float_mul NegInf PosInf = NegInf"
| "float_mul NegInf NegInf = PosInf"

fun float_sub :: "xnum \<Rightarrow> xnum \<Rightarrow> xnum" where
  "float_sub NaN y = NaN"
| "float_sub x NaN = NaN"
| "float_sub (Num a) (Num b) = float_result (val a - val b)"
| "float_sub (Num a) PosInf = NegInf"
| "float_sub (Num a) NegInf = PosInf"
| "float_sub PosInf (Num b) = PosInf"
| "float_sub NegInf (Num b) = NegInf"
| "float_sub PosInf PosInf = NaN"
| "float_sub PosInf NegInf = PosInf"
| "float_sub NegInf PosInf = NegInf"
| "float_sub NegInf NegInf = NaN"

fun float_div :: "xnum \<Rightarrow> xnum \<Rightarrow> xnum" where
  \<comment> \<open>for a divisor other than zero\<close>
  "float_div NaN y = NaN"
| "float_div x NaN = NaN"
| "float_div (Num a) (Num b) = float_result (val a / val b)"
| "float_div (Num a) PosInf = Num (PFloat 0)"
| "float_div (Num a) NegInf = Num (PFloat 0)"
| "float_div PosInf (Num b) = (if 0 < val b then PosInf else NegInf)"
| "float_div NegInf (Num b) = (if 0 < val b then NegInf else PosInf)"
| "float_div PosInf PosInf = NaN"
| "float_div PosInf NegInf = NaN"
| "float_div NegInf PosInf = NaN"
| "float_div NegInf NegInf = NaN"

fun x_mul :: "xnum \<Rightarrow> xnum \<Rightarrow> xnum option" where
  "x_mul (Num (PInt m)) (Num (PInt n)) = Some (Num (PInt (m * n)))"
| "x_mul a b = do { x \<leftarrow> x_float a; y \<leftarrow> x_float b; Some (float_mul x y) }"

fun x_sub :: "xnum \<Rightarrow> xnum \<Rightarrow> xnum option" where
  "x_sub (Num (PInt m)) (Num (PInt n)) = Some (Num (PInt (m - n)))"
| "x_sub a b = do { x \<leftarrow> x_float a; y \<leftarrow> x_float b; Some (float_sub x y) }"

fun is_zero :: "xnum \<Rightarrow> bool" where
  "is_zero (Num a) = (val a = 0)"
| "is_zero x = False"

fun x_truediv :: "xnum \<Rightarrow> xnum \<Rightarrow> xnum option" where
  "x_truediv (Num (PInt m)) (Num (PInt n)) =
     (if n = 0 then None else map_option (\<lambda>r. Num (PFloat r)) (fl (of_int m / of_int n)))"
| "x_truediv a b =
     (if is_zero b then None
      else do { x \<leftarrow> x_float a; y \<leftarrow> x_float b; Some (float_div x y) })"

fun x_lt :: "xnum \<Rightarrow> xnum \<Rightarrow> bool" where
  \<comment> \<open>\<open>a < b\<close>; every comparison with \<open>nan\<close> is false\<close>
  "x_lt NaN y = False"
| "x_lt x NaN = False"
| "x_lt (Num a) (Num b) = (val a < val b)"
| "x_lt (Num a) PosInf = True"
| "x_lt (Num a) NegInf = False"
| "x_lt PosInf y = False"
| "x_lt NegInf NegInf = False"
| "x_lt NegInf y = True"

definition x_min :: "xnum \<Rightarrow> xnum \<Rightarrow> xnum" where
  \<comment> \<open>\<open>min(a, b)\<close> returns \<open>a\<close> unless \<open>b < a\<close>\<close>
  "x_min a b = (if x_lt b a then b else a)"

definition x_max :: "xnum \<Rightarrow> xnum \<Rightarrow> xnum" where
  \<comment> \<open>\<open>max(a, b)\<close> returns \<open>a\<close> unless \<open>b > a\<close>\<close>
  "x_max a b = (if x_lt a b then b else a)"

fun finite_num :: "xnum \<Rightarrow> pynum option" where
  "finite_num (Num a) = Some a"
| "finite_num x = None"

text \<open>
  \<^verbatim>\<open>calculate_target_bitrate(duration, target_size_mb, audio_bitrate_kbps)\<close> for finite
  arguments. The clamp returns one of the two bounds or a value strictly between them, so
  the value returned is finite (lemma \<open>clamp_finite\<close> below) and \<open>finite_num\<close> never
  gives \<open>None\<close> here.
\<close>

definition calculate_target_bitrate :: "pynum \<Rightarrow> pynum \<Rightarrow> pynum \<Rightarrow> pynum option" where
  "calculate_target_bitrate duration target_size_mb audio_bitrate_kbps =
     (if py_le duration (PInt 0) then Some (PInt 2000)
      else do {
        t1 \<leftarrow> x_mul (Num target_size_mb) (Num (PInt 8));
        t2 \<leftarrow> x_mul t1 (Num (PInt 1024));
        target_bits \<leftarrow> x_mul t2 (Num (PInt 1024));
        a1 \<leftarrow> x_mul (Num audio_bitrate_kbps) (Num (PInt 1000));
        audio_bits \<leftarrow> x_mul a1 (Num duration);
        video_bits \<leftarrow> x_sub target_bits audio_bits;
        let safety_margin = Num (float_literal (90 / 100));
        v1 \<leftarrow> x_truediv video_bits (Num duration);
        v2 \<leftarrow> x_truediv v1 (Num (PInt 1000));
        target_video_bitrate_kbps \<leftarrow> x_mul v2 safety_margin;
        let min_bitrate = Num (PInt 500);
        let max_bitrate = Num (PInt 5000);
        finite_num (x_max min_bitrate (x_min max_bitrate target_video_bitrate_kbps))
      })"

definition video_info_duration :: "rat option \<Rightarrow> pynum" where
  \<comment> \<open>\<open>float(stream.get('duration', 0))\<close> in \<open>get_video_info\<close>; the argument is the
      decimal number in the probe's output, \<open>None\<close> when the stream has no duration entry\<close>
  "video_info_duration entry = (case entry of None \<Rightarrow> PFloat 0 | Some d \<Rightarrow> float_literal d)"

section \<open>Geometry\<close>

text \<open>
  The crop, border and canvas computation of \<^verbatim>\<open>process_videos_in_folder\<close> (the block
  from ``Calculate crop dimensions'' to ``Calculate position''). \<open>None\<close> is the exception
  the block raises: \<open>ZeroDivisionError\<close> for height 0, \<open>OverflowError\<close> for dimensions
  beyond the float range. Where a product or quotient of floats overflows to \<open>inf\<close>
  (\<open>original_width / target_ratio\<close>, \<open>crop_height * 1.2\<close>) the value goes to \<open>int\<close> or
  \<open>round\<close> next, which raise \<open>OverflowError\<close> for an infinity.
\<close>

definition force_even :: "int \<Rightarrow> int" where
  \<comment> \<open>\<open>x if x % 2 == 0 else x - 1\<close>\<close>
  "force_even x = (if x mod 2 = 0 then x else x - 1)"

definition crop_box :: "int \<Rightarrow> int \<Rightarrow> (int \<times> int \<times> int \<times> int) option" where
  "crop_box original_width original_height = do {
     target_ratio \<leftarrow> py_truediv (PInt 3) (PInt 4);
     video_ratio \<leftarrow> py_truediv (PInt original_width) (PInt original_height);
     d \<leftarrow> py_sub video_ratio target_ratio;
     if py_lt (py_abs d) (float_literal (1 / 100)) then
       Some (original_width, original_height, 0, 0)
     else if py_lt target_ratio video_ratio then do {
       w \<leftarrow> py_mul (PInt original_height) target_ratio;
       let crop_width = py_int w;
       Some (crop_width, original_height, (original_width - crop_width) div 2, 0)
     } else do {
       h \<leftarrow> py_truediv (PInt original_width) target_ratio;
       Some (original_width, py_int h, 0, 0)
     }
   }"

definition border_metrics :: "int \<Rightarrow> (int \<times> int) option" where
  "border_metrics crop_width = do {
     c16 \<leftarrow> py_truediv (PInt 16) (PInt 360);
     r \<leftarrow> py_mul (PInt crop_width) c16;
     c2 \<leftarrow> py_truediv (PInt 2) (PInt 360);
     b \<leftarrow> py_mul (PInt crop_width) c2;
     Some (py_int r, max 1 (py_round b))
   }"

definition canvas_size :: "int \<Rightarrow> int \<Rightarrow> int \<Rightarrow> (int \<times> int) option" where
  "canvas_size crop_width crop_height border_size = do {
     target_height \<leftarrow> py_mul (PInt crop_height) (float_literal (12 / 10));
     q \<leftarrow> py_truediv target_height (PInt 4);
     let canvas_height = py_round q * 4;
     let canvas_width = (canvas_height div 4) * 3;
     let content_width = crop_width + border_size * 2;
     (canvas_width, canvas_height) \<leftarrow>
       (if canvas_width < content_width then do {
          a \<leftarrow> py_truediv (PInt (content_width * 4)) (PInt 3);
          b \<leftarrow> py_truediv a (PInt 4);
          Some (content_width, py_round b * 4)
        } else Some (canvas_width, canvas_height));
     Some (force_even canvas_width, force_even canvas_height)
   }"

record geometry_plan =
  crop_width :: int
  crop_height :: int
  crop_x :: int
  crop_y :: int
  radius :: int
  border_size :: int
  canvas_width :: int
  canvas_height :: int
  paste_x :: int
  paste_y :: int

definition plan_geometry :: "int \<Rightarrow> int \<Rightarrow> geometry_plan option" where
  "plan_geometry original_width original_height = do {
     (cw, ch, cx, cy) \<leftarrow> crop_box original_width original_height;
     let cw = force_even cw;
     let ch = force_even ch;
     (r, b) \<leftarrow> border_metrics cw;
     (canvas_w, canvas_h) \<leftarrow> canvas_size cw ch b;
     Some \<lparr>crop_width = cw, crop_height = ch, crop_x = cx, crop_y = cy,
           radius = r, border_size = b,
           canvas_width = canvas_w, canvas_height = canvas_h,
           paste_x = (canvas_w - (cw + b * 2)) div 2, paste_y = 0\<rparr>
   }"


subsection \<open>The canvas formulas in exact arithmetic\<close>

text \<open>
  The canvas as the specification words it, computed with rational numbers instead of
  floats: \<open>canvasHeight = round(cropHeight \<cdot> 1.2 / 4) \<cdot> 4\<close> and
  \<open>canvasWidth = floor(canvasHeight / 4) \<cdot> 3\<close>; if \<open>canvasWidth\<close> is less than
  \<open>cropWidth + 2 \<cdot> borderThickness\<close>, the canvas is as wide as that and its height is
  \<open>round((canvasWidth \<cdot> 4 / 3) / 4) \<cdot> 4\<close>. This definition is not taken from the code;
  the theorems about the canvas compare \<open>canvas_size\<close> with it.
\<close>

definition canvas_as_specified :: "int \<Rightarrow> int \<Rightarrow> int \<Rightarrow> int \<times> int" where
  "canvas_as_specified cropWidth cropHeight borderThickness =
     (let canvasHeight = rne (of_int cropHeight * (12 / 10) / 4) * 4;
          canvasWidth = \<lfloor>(of_int canvasHeight :: rat) / 4\<rfloor> * 3
      in if canvasWidth < cropWidth + 2 * borderThickness
         then (cropWidth + 2 * borderThickness,
               rne ((of_int (cropWidth + 2 * borderThickness) * 4 / 3) / 4) * 4)
         else (canvasWidth, canvasHeight))"

section \<open>External processes\<close>

text \<open>
  What the operating system and the external tools do is an input of the model. An
  exception is a value of \<open>exn\<close>; \<open>Inl e\<close> is ``raises \<open>e\<close>''. \<open>KeyboardInterrupt\<close> is
  the one exception here that \<^verbatim>\<open>except Exception\<close> does not catch. What is written
  to the console is left out.
\<close>

datatype exn = KeyboardInterrupt | FileNotFoundError | OverflowError | ZeroDivisionError | OSError

definition caught_by_except_Exception :: "exn \<Rightarrow> bool" where
  "caught_by_except_Exception e = (e \<noteq> KeyboardInterrupt)"

record completed_process =
  returncode :: int
  stdout :: string
  stderr :: string

definition isspace :: "char \<Rightarrow> bool" where
  \<comment> \<open>the characters below U+0100 that \<open>str.strip()\<close> removes\<close>
  "isspace c = (c \<in> set [CHR 0x09, CHR 0x0A, CHR 0x0B, CHR 0x0C, CHR 0x0D,
                           CHR 0x1C, CHR 0x1D, CHR 0x1E, CHR 0x1F, CHR 0x20,
                           CHR 0x85, CHR 0xA0])"

definition strip :: "string \<Rightarrow> string" where
  "strip s = rev (dropWhile isspace (rev (dropWhile isspace s)))"

fun contains :: "string \<Rightarrow> string \<Rightarrow> bool" where
  \<comment> \<open>\<open>contains needle s\<close> is Python's \<open>needle in s\<close>\<close>
  "contains needle [] = (needle = [])"
| "contains needle (c # cs) = (take (length needle) (c # cs) = needle \<or> contains needle cs)"

definition run_ffmpeg ::
  "(string list \<Rightarrow> exn + completed_process) \<Rightarrow> string list \<Rightarrow> exn + (bool \<times> string \<times> string)" where
  \<comment> \<open>the first argument is \<open>subprocess.run\<close>: what running a command gives\<close>
  "run_ffmpeg subprocess_run cmd =
     (case subprocess_run cmd of
        Inl e \<Rightarrow> Inl e
      | Inr result \<Rightarrow>
          (let err = strip (stderr result); out = strip (stdout result)
           in if returncode result \<noteq> 0 then Inr (False, err, out) else Inr (True, err, out)))"

record system_info =
  platform :: string
  machine :: string
  processor :: string
  is_macos :: bool
  is_apple_silicon :: bool
  has_videotoolbox :: bool
  available_hw_encoders :: "string list"

definition detect_system :: "string \<Rightarrow> string \<Rightarrow> string \<Rightarrow> system_info" where
  \<comment> \<open>the arguments are \<open>platform.system()\<close>, \<open>platform.machine()\<close>, \<open>platform.processor()\<close>\<close>
  "detect_system sys mach proc =
     (let info = \<lparr>platform = sys, machine = mach, processor = proc,
                  is_macos = (sys = ''Darwin''), is_apple_silicon = False,
                  has_videotoolbox = False, available_hw_encoders = []\<rparr>
      in if is_macos info \<and> machine info = ''arm64''
         then info\<lparr>is_apple_silicon := True\<rparr> else info)"

definition check_hardware_encoders ::
  "(string list \<Rightarrow> exn + completed_process) \<Rightarrow> system_info \<Rightarrow> exn + system_info" where
  "check_hardware_encoders subprocess_run info =
     (if \<not> is_macos info then Inr info
      else case run_ffmpeg subprocess_run [''ffmpeg'', ''-encoders''] of
        Inl e \<Rightarrow> Inl e
      | Inr (success, stderr_output, stdout_output) \<Rightarrow>
          if success then
            (let hw_encoders =
                   (if contains ''h264_videotoolbox'' stdout_output then [''h264_videotoolbox''] else [])
                 @ (if contains ''hevc_videotoolbox'' stdout_output then [''hevc_videotoolbox''] else [])
                 @ (if contains ''prores_videotoolbox'' stdout_output then [''prores_videotoolbox''] else [])
             in Inr (info\<lparr>available_hw_encoders := hw_encoders,
                            has_videotoolbox := (0 < length hw_encoders)\<rparr>))
          else Inr info)"

subsection \<open>The progress-tracked runner\<close>

text \<open>
  One call of \<^verbatim>\<open>run_ffmpeg_with_progress\<close> is described by what happens to it:
  \<open>Popen\<close> raises; or an exception is raised inside the \<^verbatim>\<open>try\<close> block before the child
  has exited (in the monitoring loop, or an interrupt while \<open>process.wait\<close> blocks); or the
  loop ends and the child is waited for. The child then exits on its own after
  \<open>exit_after\<close> seconds with \<open>exit_status\<close>, and has return code
  \<open>status_if_terminated\<close> when the timeout expires and \<open>process.terminate()\<close> is called:
  the negative signal number when \<open>SIGTERM\<close> kills it, its own exit code when it handles
  the signal or has just exited by itself. The last component of \<open>Loop_finished\<close> is the
  exception, if any, that a statement between the child's exit and the \<^verbatim>\<open>return\<close>
  raises: these statements write to the console (\<open>print\<close>, \<open>sys.stdout.write\<close>,
  \<open>sys.stdout.flush\<close>) and are inside the \<^verbatim>\<open>try\<close> block.
\<close>

record child_process =
  exit_after :: rat
  exit_status :: int
  status_if_terminated :: int

datatype ffmpeg_run =
    Popen_raised exn
  | Loop_raised exn "string list"
  | Loop_finished "string list" child_process "exn option"

definition timeout_seconds :: "pynum \<Rightarrow> pynum option" where
  \<comment> \<open>\<open>max(300, duration * 2) if duration > 0 else 300\<close>; \<open>None\<close> is an infinite timeout\<close>
  "timeout_seconds duration =
     (if py_lt (PInt 0) duration
      then map_option (py_max (PInt 300)) (py_mul duration (PInt 2))
      else Some (PInt 300))"

datatype wait_outcome = Exited int | TimeoutExpired

definition process_wait :: "child_process \<Rightarrow> pynum option \<Rightarrow> wait_outcome" where
  "process_wait child timeout =
     (case timeout of
        None \<Rightarrow> Exited (exit_status child)
      | Some t \<Rightarrow> if exit_after child \<le> val t then Exited (exit_status child) else TimeoutExpired)"

definition final_returncode :: "child_process \<Rightarrow> pynum \<Rightarrow> int" where
  \<comment> \<open>\<open>process.returncode\<close> after \<open>wait(timeout)\<close> and, on timeout, \<open>terminate(); wait()\<close>\<close>
  "final_returncode child duration =
     (case process_wait child (timeout_seconds duration) of
        Exited rc \<Rightarrow> rc
      | TimeoutExpired \<Rightarrow> status_if_terminated child)"

definition run_ffmpeg_with_progress :: "ffmpeg_run \<Rightarrow> pynum \<Rightarrow> exn + (bool \<times> string list)" where
  "run_ffmpeg_with_progress run duration =
     (case run of
        Popen_raised e \<Rightarrow> Inl e
      | Loop_raised e stderr_lines \<Rightarrow>
          if e = KeyboardInterrupt then Inl KeyboardInterrupt else Inr (False, stderr_lines)
      | Loop_finished stderr_lines child console_error \<Rightarrow>
          (case console_error of
             Some e \<Rightarrow>
               if e = KeyboardInterrupt then Inl KeyboardInterrupt else Inr (False, stderr_lines)
           | None \<Rightarrow>
               if final_returncode child duration = 0
               then Inr (True, stderr_lines) else Inr (False, stderr_lines)))"

section \<open>Size enforcement\<close>

text \<open>
  A file is represented by its size in MB as \<^verbatim>\<open>get_file_size_mb\<close> reports it; \<open>None\<close>
  is a path that does not exist. \<open>reencodes\<close> logs every call of
  \<^verbatim>\<open>reencode_to_target_size\<close> with its target size and the video bitrate it computes.
  The encoder says, for the \<open>k\<close>-th re-encode, what the two ffmpeg passes do.
\<close>

record world =
  output_file :: "rat option"
  oversized_tmp :: "rat option"
  overlay_tmp :: "string list"
  reencodes :: "(pynum \<times> pynum option) list"

record encoder =
  first_pass :: "nat \<Rightarrow> exn + bool"
  second_pass :: "nat \<Rightarrow> (exn + bool) \<times> rat option"

definition get_file_size_mb :: "rat option \<Rightarrow> rat" where
  "get_file_size_mb f = (case f of None \<Rightarrow> 0 | Some size_mb \<Rightarrow> size_mb)"

definition reencode_to_target_size ::
  "encoder \<Rightarrow> pynum \<Rightarrow> pynum \<Rightarrow> world \<Rightarrow> (exn + bool) \<times> world" where
  "reencode_to_target_size enc target_size_mb duration w =
     (let audio_bitrate = PInt 128;
          target_video_bitrate = calculate_target_bitrate duration target_size_mb audio_bitrate;
          k = length (reencodes w);
          w1 = w\<lparr>reencodes := reencodes w @ [(target_size_mb, target_video_bitrate)]\<rparr>
      in case first_pass enc k of
           Inl e \<Rightarrow> (Inl e, w1)
         | Inr success \<Rightarrow>
             if \<not> success then (Inr False, w1)
             else (case second_pass enc k of
                     (r, written) \<Rightarrow>
                       (let w2 = w1\<lparr>output_file := written\<rparr>
                        in case r of
                             Inl e \<Rightarrow> (Inl e, w2)
                           | Inr success \<Rightarrow> if \<not> success then (Inr False, w2) else (Inr True, w2))))"

definition enforce_size_limit ::
  "encoder \<Rightarrow> int \<Rightarrow> pynum \<Rightarrow> world \<Rightarrow> (exn + bool) \<times> world" where
  "enforce_size_limit enc target_size_mb duration w =
     (case output_file w of
        None \<Rightarrow> (Inr False, w)
      | Some file_size \<Rightarrow>
          if file_size \<le> of_int target_size_mb then (Inr True, w)
          else
            (let w1 = w\<lparr>oversized_tmp := Some file_size\<rparr>;
                 (r, w') =
                   (case reencode_to_target_size enc (PInt target_size_mb) duration w1 of
                      (Inl e, w2) \<Rightarrow> (Inl e, w2)
                    | (Inr success, w2) \<Rightarrow>
                        if success then
                          if get_file_size_mb (output_file w2) \<le> of_int target_size_mb
                          then (Inr True, w2)
                          else (case py_mul (PInt target_size_mb) (float_literal (95 / 100)) of
                                  None \<Rightarrow> (Inl OverflowError, w2)
                                | Some aggressive \<Rightarrow>
                                    (case reencode_to_target_size enc aggressive duration w2 of
                                       (Inl e, w3) \<Rightarrow> (Inl e, w3)
                                     | (Inr success, w3) \<Rightarrow>
                                         (Inr (get_file_size_mb (output_file w3)
                                                 \<le> of_int target_size_mb), w3)))
                        else (Inr False, w2))
             in (r, w'\<lparr>oversized_tmp := None\<rparr>)))"

section \<open>One file of the batch\<close>

text \<open>
  The body of the loop of \<^verbatim>\<open>process_videos_in_folder\<close> for one file. The job's
  environment gives the probe result (width, height, duration), the exception, if any,
  that saving the mask or the border image raises, the run of the first encode with the
  file it writes, whether \<open>shutil.rmtree\<close> fails, and the encoder of the size loop.
\<close>

record job_env =
  video_info :: "(int \<times> int \<times> pynum) option"
  mask_error :: "exn option"
  border_error :: "exn option"
  encode_run :: ffmpeg_run
  encoded_file :: "rat option"
  rmtree_fails :: bool
  size_encoder :: encoder

datatype job_result = Processed | Failed | Propagated exn

definition on_exception :: "exn \<Rightarrow> world \<Rightarrow> job_result \<times> world" where
  \<comment> \<open>the handlers around the job: \<open>except Exception\<close> counts a failure, anything else goes on\<close>
  "on_exception e w = (if caught_by_except_Exception e then (Failed, w) else (Propagated e, w))"

definition process_one_video ::
  "job_env \<Rightarrow> string \<Rightarrow> string \<Rightarrow> int \<Rightarrow> world \<Rightarrow> job_result \<times> world" where
  "process_one_video env tmpdir base_name max_output_size_mb w =
     (case video_info env of
        None \<Rightarrow> (Failed, w)
      | Some (original_width, original_height, duration) \<Rightarrow>
          (case plan_geometry original_width original_height of
             None \<Rightarrow> (Failed, w)
           | Some plan \<Rightarrow>
               (let mask_path = tmpdir @ ''/'' @ base_name @ ''_mask.png'';
                    border_path = tmpdir @ ''/'' @ base_name @ ''_border.png'';
                    w1 = w\<lparr>overlay_tmp := tmpdir # overlay_tmp w\<rparr>
                in case mask_error env of
                     Some e \<Rightarrow> on_exception e w1
                   | None \<Rightarrow>
                       (let w2 = w1\<lparr>overlay_tmp := mask_path # overlay_tmp w1\<rparr>
                        in case border_error env of
                             Some e \<Rightarrow> on_exception e w2
                           | None \<Rightarrow>
                               (let w3 = w2\<lparr>overlay_tmp := border_path # overlay_tmp w2\<rparr>
                                in case run_ffmpeg_with_progress (encode_run env) duration of
                                     Inl e \<Rightarrow> on_exception e (w3\<lparr>output_file := encoded_file env\<rparr>)
                                   | Inr (success, stderr_lines) \<Rightarrow>
                                       (let w4 = w3\<lparr>output_file := encoded_file env\<rparr>;
                                            w5 = (if rmtree_fails env then w4
                                                  else w4\<lparr>overlay_tmp :=
                                                         filter (\<lambda>p. p \<notin> {tmpdir, mask_path, border_path})
                                                           (overlay_tmp w4)\<rparr>)
                                        in if success then
                                             (case enforce_size_limit (size_encoder env)
                                                     max_output_size_mb duration w5 of
                                                (Inl e, w6) \<Rightarrow> on_exception e w6
                                              | (Inr size_ok, w6) \<Rightarrow>
                                                  if size_ok then (Processed, w6) else (Failed, w6))
                                           else (Failed, w5)))))))"

section \<open>Concrete inputs\<close>

text \<open>Inputs at which the theorems below are instantiated.\<close>

definition ffmpeg_missing :: "string list \<Rightarrow> exn + completed_process" where
  \<comment> \<open>no \<open>ffmpeg\<close> executable on the path: \<open>subprocess.run\<close> raises \<open>FileNotFoundError\<close>\<close>
  "ffmpeg_missing cmd = Inl FileNotFoundError"




definition stubborn_encoder :: encoder where
  \<comment> \<open>both passes succeed, the output stays at 12 MB\<close>
  "stubborn_encoder = \<lparr>first_pass = (\<lambda>k. Inr True), second_pass = (\<lambda>k. (Inr True, Some 12))\<rparr>"

definition oversized_world :: world where
  "oversized_world = \<lparr>output_file = Some 15, oversized_tmp = None, overlay_tmp = [], reencodes = []\<rparr>"

definition empty_world :: world where
  "empty_world = \<lparr>output_file = None, oversized_tmp = None, overlay_tmp = [], reencodes = []\<rparr>"

definition interrupted_job :: job_env where
  \<comment> \<open>an 800x400 source; the operator presses Ctrl-C while the first encode runs\<close>
  "interrupted_job =
     \<lparr>video_info = Some (800, 400, PFloat 60), mask_error = None, border_error = None,
      encode_run = Loop_raised KeyboardInterrupt [], encoded_file = None,
      rmtree_fails = False, size_encoder = stubborn_encoder\<rparr>"

definition completed_job :: job_env where
  \<comment> \<open>the same source; the encode exits with 0 after 20 s and writes 8 MB\<close>
  "completed_job =
     \<lparr>video_info = Some (800, 400, PFloat 60), mask_error = None, border_error = None,
      encode_run =
        Loop_finished [] \<lparr>exit_after = 20, exit_status = 0, status_if_terminated = - 15\<rparr> None,
      encoded_file = Some 8, rmtree_fails = False, size_encoder = stubborn_encoder\<rparr>"

section \<open>Powers of two and the binary exponent\<close>

text \<open>
  \<open>expo x\<close> is the exponent \<open>e\<close> with \<open>2\<^sup>e \<le> x < 2\<^sup>e\<^sup>+\<^sup>1\<close> of a positive rational.
\<close>

lemma powi_nonneg_eq: "0 \<le> k \<Longrightarrow> (2::rat) powi k = 2 ^ nat k"
  by (simp add: power_int_def)

lemma powi_neg_eq: "0 \<le> k \<Longrightarrow> (2::rat) powi (- k) = 1 / 2 ^ nat k"
  by (simp add: power_int_minus field_simps power_int_def)

lemma powi_pos: "0 < (2::rat) powi k"
  by (simp add: zero_less_power_int)

lemma powi_mono: "a \<le> b \<Longrightarrow> (2::rat) powi a \<le> 2 powi b"
  by (rule power_int_increasing) simp_all

lemma powi_strict_mono: "a < b \<Longrightarrow> (2::rat) powi a < 2 powi b"
  by (rule power_int_strict_increasing) simp_all

lemma powi_add: "(2::rat) powi (a + b) = 2 powi a * 2 powi b"
  by (simp add: power_int_add)

lemma powi_diff: "(2::rat) powi (a - b) = 2 powi a / 2 powi b"
  by (simp add: power_int_diff)

lemma pow2_le_of_int: "2 ^ k \<le> (m::int) \<Longrightarrow> (2::rat) ^ k \<le> of_int m"
  using of_int_le_iff[of "2 ^ k" m, where 'a = rat] by simp

lemma of_int_le_pow2: "(m::int) \<le> 2 ^ k \<Longrightarrow> (of_int m :: rat) \<le> 2 ^ k"
  using of_int_le_iff[of m "2 ^ k", where 'a = rat] by simp

lemma expo_lower:
  assumes "0 < x"
  shows "2 powi (expo x) \<le> x"
proof (cases "1 \<le> x")
  case True
  define n where "n = \<lfloor>x\<rfloor>"
  have n1: "1 \<le> n" using True by (simp add: n_def)
  have b1: "1 \<le> bitlen n" using n1 by (simp add: bitlen_alt_def) 
  have "2 ^ nat (bitlen n - 1) \<le> n" using bitlen_bounds[of n] n1 by simp
  then have "(2::rat) ^ nat (bitlen n - 1) \<le> of_int n" by (rule pow2_le_of_int)
  also have "\<dots> \<le> x" by (simp add: n_def)
  finally show ?thesis using True b1 by (simp add: expo_def n_def[symmetric] powi_nonneg_eq)
next
  case False
  define m where "m = \<lceil>1 / x\<rceil> - 1"
  have "1 < 1 / x" using False assms by (simp add: field_simps)
  then have "1 < \<lceil>1 / x\<rceil>" by (simp add: less_ceiling_iff)
  then have m1: "1 \<le> m" unfolding m_def by simp
  have "1 / x \<le> of_int (m + 1)" by (simp add: m_def)
  also have "m + 1 \<le> 2 ^ nat (bitlen m)" using bitlen_bounds[of m] m1 by simp
  then have "(of_int (m + 1) :: rat) \<le> 2 ^ nat (bitlen m)" by (rule of_int_le_pow2)
  finally have "1 / x \<le> 2 ^ nat (bitlen m)" .
  then have "1 / 2 ^ nat (bitlen m) \<le> x" using assms by (simp add: field_simps)
  then show ?thesis using False by (simp add: expo_def m_def[symmetric] powi_neg_eq bitlen_nonneg)
qed

lemma expo_upper:
  assumes "0 < x"
  shows "x < 2 powi (expo x + 1)"
proof (cases "1 \<le> x")
  case True
  define n where "n = \<lfloor>x\<rfloor>"
  have n1: "1 \<le> n" using True by (simp add: n_def)
  have b1: "1 \<le> bitlen n" using n1 by (simp add: bitlen_alt_def) 
  have "x < of_int (n + 1)" unfolding n_def using floor_correct[of x] by simp
  also have "n + 1 \<le> 2 ^ nat (bitlen n)" using bitlen_bounds[of n] n1 by simp
  then have "(of_int (n + 1) :: rat) \<le> 2 ^ nat (bitlen n)" by (rule of_int_le_pow2)
  finally have "x < 2 ^ nat (bitlen n)" .
  then show ?thesis using True b1 by (simp add: expo_def n_def[symmetric] powi_nonneg_eq)
next
  case False
  define m where "m = \<lceil>1 / x\<rceil> - 1"
  have "1 < 1 / x" using False assms by (simp add: field_simps)
  then have "1 < \<lceil>1 / x\<rceil>" by (simp add: less_ceiling_iff)
  then have m1: "1 \<le> m" unfolding m_def by simp
  have b1: "1 \<le> bitlen m" using m1 by (simp add: bitlen_alt_def) 
  have "2 ^ nat (bitlen m - 1) \<le> m" using bitlen_bounds[of m] m1 by simp
  then have "(2::rat) ^ nat (bitlen m - 1) \<le> of_int m" by (rule pow2_le_of_int)
  also have "of_int m < 1 / x" unfolding m_def using ceiling_correct[of "1 / x"] by simp
  finally have "2 ^ nat (bitlen m - 1) < 1 / x" .
  then have "x < 1 / 2 ^ nat (bitlen m - 1)" using assms by (simp add: field_simps)
  moreover have "expo x + 1 = - (bitlen m - 1)" using False by (simp add: expo_def m_def)
  ultimately show ?thesis using b1 by (simp only: powi_neg_eq)
qed

lemma expo_unique:
  assumes "0 < x" "2 powi e \<le> x" "x < 2 powi (e + 1)"
  shows "expo x = e"
proof (rule ccontr)
  assume ne: "expo x \<noteq> e"
  show False
  proof (cases "expo x < e")
    case True
    then have "expo x + 1 \<le> e" by simp
    then have "(2::rat) powi (expo x + 1) \<le> 2 powi e" by (rule powi_mono)
    with expo_upper[OF assms(1)] assms(2) show False by simp
  next
    case False
    with ne have "e + 1 \<le> expo x" by simp
    then have "(2::rat) powi (e + 1) \<le> 2 powi (expo x)" by (rule powi_mono)
    with expo_lower[OF assms(1)] assms(3) show False by simp
  qed
qed

lemma expo_mono:
  assumes "0 < x" "x \<le> y"
  shows "expo x \<le> expo y"
proof (rule ccontr)
  assume "\<not> expo x \<le> expo y"
  then have "expo y + 1 \<le> expo x" by simp
  then have "(2::rat) powi (expo y + 1) \<le> 2 powi (expo x)" by (rule powi_mono)
  moreover have "0 < y" using assms by simp
  ultimately show False using expo_lower[OF assms(1)] expo_upper[of y] assms(2) by simp
qed

section \<open>Rounding to the nearest integer\<close>

lemma rne_cases:
  "rne x = \<lfloor>x\<rfloor> \<or> rne x = \<lfloor>x\<rfloor> + 1"
  by (simp add: rne_def Let_def)

lemma rne_lower: "x - 1 / 2 \<le> of_int (rne x)"
proof -
  define f where "f = \<lfloor>x\<rfloor>"
  have fx: "of_int f \<le> x" "x < of_int f + 1" unfolding f_def by linarith+
  have "rne x = (if x - of_int f < 1 / 2 then f else if 1 / 2 < x - of_int f then f + 1
                 else if even f then f else f + 1)"
    by (simp add: rne_def f_def Let_def)
  then show ?thesis using fx by (auto split: if_splits)
qed

lemma rne_upper: "of_int (rne x) \<le> x + 1 / 2"
proof -
  define f where "f = \<lfloor>x\<rfloor>"
  have fx: "of_int f \<le> x" "x < of_int f + 1" unfolding f_def by linarith+
  have "rne x = (if x - of_int f < 1 / 2 then f else if 1 / 2 < x - of_int f then f + 1
                 else if even f then f else f + 1)"
    by (simp add: rne_def f_def Let_def)
  then show ?thesis using fx by (auto split: if_splits)
qed

lemma rne_of_int [simp]: "rne (of_int n) = n"
  by (simp add: rne_def)

lemma rne_mono:
  assumes "x \<le> y"
  shows "rne x \<le> rne y"
proof (cases "\<lfloor>x\<rfloor> = \<lfloor>y\<rfloor>")
  case True
  then show ?thesis using assms unfolding rne_def Let_def by auto
next
  case False
  have "\<lfloor>x\<rfloor> \<le> \<lfloor>y\<rfloor>" using assms by (rule floor_mono)
  with False have "\<lfloor>x\<rfloor> + 1 \<le> \<lfloor>y\<rfloor>" by simp
  moreover have "rne x \<le> \<lfloor>x\<rfloor> + 1" using rne_cases[of x] by auto
  moreover have "\<lfloor>y\<rfloor> \<le> rne y" using rne_cases[of y] by auto
  ultimately show ?thesis by simp
qed

lemma rne_le_int: "x \<le> of_int n \<Longrightarrow> rne x \<le> n"
  using rne_mono[of x "of_int n"] by simp

lemma rne_ge_int: "of_int n \<le> x \<Longrightarrow> n \<le> rne x"
  using rne_mono[of "of_int n" x] by simp

lemma rne_nonneg: "0 \<le> x \<Longrightarrow> 0 \<le> rne x"
  using rne_ge_int[of 0 x] by simp

section \<open>Rounding to 53 significant bits\<close>

text \<open>
  \<open>flp\<close> rounds a positive rational to a multiple of its unit in the last place. It is
  monotone, and its error is at most half a unit: at most \<open>x / 2\<^sup>5\<^sup>3\<close> in the normal range.
\<close>

lemma quantum_le_expo: "quantum x \<le> k \<longleftrightarrow> expo x - 52 \<le> k \<and> - 1074 \<le> k"
  by (auto simp: quantum_def)

lemma quantum_mono: "0 < x \<Longrightarrow> x \<le> y \<Longrightarrow> quantum x \<le> quantum y"
  using expo_mono[of x y] by (auto simp: quantum_def)

lemma powi_of_int: "0 \<le> k \<Longrightarrow> (2::rat) powi k = of_int (2 ^ nat k)"
  by (simp add: powi_nonneg_eq)

lemma flp_le_pow:
  assumes "0 < x" "x \<le> 2 powi k" "quantum x \<le> k"
  shows "flp x \<le> 2 powi k"
proof -
  let ?u = "(2::rat) powi quantum x"
  have u: "0 < ?u" by (rule powi_pos)
  have "x / ?u \<le> 2 powi k / ?u" using assms(2) u by (simp add: divide_right_mono)
  also have "\<dots> = 2 powi (k - quantum x)" by (simp add: powi_diff)
  also have "\<dots> = of_int (2 ^ nat (k - quantum x))" using assms(3) by (simp add: powi_of_int)
  finally have "rne (x / ?u) \<le> 2 ^ nat (k - quantum x)" by (rule rne_le_int)
  then have "(of_int (rne (x / ?u)) :: rat) \<le> of_int (2 ^ nat (k - quantum x))"
    by (simp only: of_int_le_iff)
  also have "\<dots> = 2 powi (k - quantum x)" using assms(3) by (simp add: powi_of_int)
  finally have "of_int (rne (x / ?u)) * ?u \<le> 2 powi (k - quantum x) * ?u"
    using u by (simp add: mult_right_mono)
  also have "\<dots> = 2 powi k" by (simp add: powi_diff)
  finally show ?thesis by (simp add: flp_def)
qed

lemma flp_ge_pow:
  assumes "0 < x" "2 powi k \<le> x" "quantum x \<le> k"
  shows "2 powi k \<le> flp x"
proof -
  let ?u = "(2::rat) powi quantum x"
  have u: "0 < ?u" by (rule powi_pos)
  have "of_int (2 ^ nat (k - quantum x)) = (2::rat) powi (k - quantum x)"
    using assms(3) by (simp add: powi_of_int)
  also have "\<dots> = 2 powi k / ?u" by (simp add: powi_diff)
  also have "\<dots> \<le> x / ?u" using assms(2) u by (simp add: divide_right_mono)
  finally have "2 ^ nat (k - quantum x) \<le> rne (x / ?u)" by (rule rne_ge_int)
  then have "(of_int (2 ^ nat (k - quantum x)) :: rat) \<le> of_int (rne (x / ?u))"
    by (simp only: of_int_le_iff)
  then have "of_int (2 ^ nat (k - quantum x)) * ?u \<le> of_int (rne (x / ?u)) * ?u"
    using u by (intro mult_right_mono) simp_all
  moreover have "2 powi k = 2 powi (k - quantum x) * ?u" by (simp add: powi_diff)
  moreover have "(2::rat) powi (k - quantum x) = of_int (2 ^ nat (k - quantum x))"
    using assms(3) by (simp add: powi_of_int)
  ultimately have "2 powi k \<le> of_int (rne (x / ?u)) * ?u" by (simp only:)
  then show ?thesis by (simp add: flp_def)
qed

lemma flp_nonneg: "0 < x \<Longrightarrow> 0 \<le> flp x"
  unfolding flp_def by (intro mult_nonneg_nonneg) (simp_all add: rne_nonneg powi_pos less_imp_le)

lemma flp_mono:
  assumes "0 < x" "x \<le> y"
  shows "flp x \<le> flp y"
proof (cases "quantum x = quantum y")
  case True
  let ?u = "(2::rat) powi quantum y"
  have u: "0 < ?u" by (rule powi_pos)
  have "x / ?u \<le> y / ?u" using assms(2) u by (simp add: divide_right_mono)
  then have "rne (x / ?u) \<le> rne (y / ?u)" by (rule rne_mono)
  then have "(of_int (rne (x / ?u)) :: rat) \<le> of_int (rne (y / ?u))" by (simp only: of_int_le_iff)
  then have "of_int (rne (x / ?u)) * ?u \<le> of_int (rne (y / ?u)) * ?u"
    using u by (simp add: mult_right_mono)
  then show ?thesis by (simp add: flp_def True)
next
  case False
  have y: "0 < y" using assms by simp
  have lt: "quantum x < quantum y" using quantum_mono[OF assms] False by simp
  then have qy: "quantum y = expo y - 52" and ex: "expo x + 1 \<le> expo y"
    by (auto simp: quantum_def)
  have "x < 2 powi (expo x + 1)" by (rule expo_upper[OF assms(1)])
  also have "\<dots> \<le> 2 powi (expo y)" using ex by (rule powi_mono)
  finally have "x \<le> 2 powi (expo y)" by simp
  moreover have "quantum x \<le> expo y" using lt qy by simp
  ultimately have "flp x \<le> 2 powi (expo y)" by (rule flp_le_pow[OF assms(1)])
  also have "2 powi (expo y) \<le> flp y"
    by (rule flp_ge_pow[OF y expo_lower[OF y]]) (simp add: qy)
  finally show ?thesis .
qed

lemma flp_error:
  "\<bar>flp x - x\<bar> \<le> 2 powi quantum x / 2"
proof -
  let ?u = "(2::rat) powi quantum x"
  have u: "0 < ?u" by (rule powi_pos)
  have "\<bar>of_int (rne (x / ?u)) - x / ?u\<bar> \<le> 1 / 2"
    using rne_lower[of "x / ?u"] rne_upper[of "x / ?u"] by linarith
  then have "\<bar>of_int (rne (x / ?u)) - x / ?u\<bar> * ?u \<le> 1 / 2 * ?u"
    using u by (simp add: mult_right_mono)
  moreover have "\<bar>of_int (rne (x / ?u)) - x / ?u\<bar> * ?u = \<bar>of_int (rne (x / ?u)) * ?u - x\<bar>"
  proof -
    have "\<bar>of_int (rne (x / ?u)) - x / ?u\<bar> * ?u = \<bar>(of_int (rne (x / ?u)) - x / ?u) * ?u\<bar>"
      using u by (simp add: abs_mult)
    also have "(of_int (rne (x / ?u)) - x / ?u) * ?u = of_int (rne (x / ?u)) * ?u - x"
      using u by (simp add: field_simps)
    finally show ?thesis .
  qed
  ultimately show ?thesis by (simp add: flp_def)
qed

lemma flp_rel_error:
  assumes "2 powi (- 1022) \<le> x"
  shows "\<bar>flp x - x\<bar> \<le> x / 2 ^ 53"
proof -
  have x: "0 < x" using assms powi_pos[of "- 1022"] by linarith
  have "- 1022 \<le> expo x"
  proof (rule ccontr)
    assume "\<not> - 1022 \<le> expo x"
    then have "expo x + 1 \<le> - 1022" by simp
    then have "(2::rat) powi (expo x + 1) \<le> 2 powi (- 1022)" by (rule powi_mono)
    with expo_upper[OF x] assms show False by simp
  qed
  then have q: "quantum x = expo x - 52" by (simp add: quantum_def)
  have "\<bar>flp x - x\<bar> \<le> 2 powi (expo x - 52) / 2" using flp_error[of x] by (simp add: q)
  also have "\<dots> = 2 powi (expo x) / 2 ^ 53" by (simp add: powi_diff)
  also have "\<dots> \<le> x / 2 ^ 53" using expo_lower[OF x] by (simp add: divide_right_mono)
  finally show ?thesis .
qed

section \<open>Rounding to a float\<close>

lemma fl_raw_nonneg: "0 \<le> x \<Longrightarrow> 0 \<le> fl_raw x"
  by (simp add: fl_raw_def flp_nonneg)

lemma fl_raw_nonpos: "x \<le> 0 \<Longrightarrow> fl_raw x \<le> 0"
  by (simp add: fl_raw_def flp_nonneg)

lemma fl_raw_minus: "fl_raw (- x) = - fl_raw x"
  by (simp add: fl_raw_def)

lemma fl_raw_mono:
  assumes "x \<le> y"
  shows "fl_raw x \<le> fl_raw y"
proof -
  consider "0 < x" | "x \<le> 0" "0 \<le> y" | "y < 0" by linarith
  then show ?thesis
  proof cases
    case 1
    then show ?thesis using assms flp_mono[of x y] by (simp add: fl_raw_def)
  next
    case 2
    then show ?thesis using fl_raw_nonpos[of x] fl_raw_nonneg[of y] by linarith
  next
    case 3
    then have "flp (- y) \<le> flp (- x)" using assms by (intro flp_mono) simp_all
    then show ?thesis using 3 assms by (simp add: fl_raw_def)
  qed
qed

lemma fl_raw_rel_error:
  assumes "2 powi (- 1022) \<le> x"
  shows "\<bar>fl_raw x - x\<bar> \<le> x / 2 ^ 53"
proof -
  have "0 < x" using assms powi_pos[of "- 1022"] by linarith
  then show ?thesis using flp_rel_error[OF assms] by (simp add: fl_raw_def)
qed

lemma expo_le: 
  assumes "0 < x" "x \<le> 2 powi k"
  shows "expo x \<le> k"
proof (rule ccontr)
  assume "\<not> expo x \<le> k"
  then have "k + 1 \<le> expo x" by simp
  then have "(2::rat) powi (k + 1) \<le> 2 powi (expo x)" by (rule powi_mono)
  moreover have "(2::rat) powi k < 2 powi (k + 1)" by (rule powi_strict_mono) simp
  ultimately show False using expo_lower[OF assms(1)] assms(2) by linarith
qed

lemma fl_raw_le_pow:
  assumes "x \<le> 2 powi k" "- 1074 \<le> k"
  shows "fl_raw x \<le> 2 powi k"
proof (cases "0 < x")
  case True
  have "quantum x \<le> k" using expo_le[OF True assms(1)] assms(2) by (simp add: quantum_def)
  then show ?thesis using True flp_le_pow[OF True assms(1)] by (simp add: fl_raw_def)
next
  case False
  then have "fl_raw x \<le> 0" by (intro fl_raw_nonpos) simp
  then show ?thesis using powi_pos[of k] by linarith
qed

lemma abs_lt_pow_iff:
  assumes "r \<noteq> 0"
  shows "\<bar>r\<bar> < 2 ^ 1024 \<longleftrightarrow> expo \<bar>r\<bar> < 1024"
proof
  have r: "0 < \<bar>r\<bar>" using assms by simp
  have p: "(2::rat) powi 1024 = 2 ^ 1024" by (simp add: powi_nonneg_eq)
  {
    assume a: "\<bar>r\<bar> < 2 ^ 1024"
    show "expo \<bar>r\<bar> < 1024"
    proof (rule ccontr)
      assume "\<not> expo \<bar>r\<bar> < 1024"
      then have "(2::rat) powi 1024 \<le> 2 powi (expo \<bar>r\<bar>)" by (intro powi_mono) simp
      with expo_lower[OF r] a p show False by linarith
    qed
  }
  {
    assume "expo \<bar>r\<bar> < 1024"
    then have "(2::rat) powi (expo \<bar>r\<bar> + 1) \<le> 2 powi 1024" by (intro powi_mono) simp
    with expo_upper[OF r] p show "\<bar>r\<bar> < 2 ^ 1024" by linarith
  }
qed

lemma fl_code [code]:
  "fl x = (let r = fl_raw x in if r = 0 \<or> expo \<bar>r\<bar> < 1024 then Some r else None)"
proof (cases "fl_raw x = 0")
  case True
  then show ?thesis by (simp add: fl_def)
next
  case False
  then show ?thesis using abs_lt_pow_iff[OF False] by (simp add: fl_def Let_def)
qed

lemma fl_Some_iff: "fl x = Some r \<longleftrightarrow> r = fl_raw x \<and> \<bar>r\<bar> < 2 ^ 1024"
  by (auto simp: fl_def Let_def)

lemma fl_bounded:
  assumes "0 \<le> x" "x \<le> 2 powi k" "- 1074 \<le> k" "k \<le> 1023"
  shows "\<exists>r. fl x = Some r \<and> 0 \<le> r \<and> r \<le> 2 powi k"
proof -
  have a: "0 \<le> fl_raw x" by (rule fl_raw_nonneg[OF assms(1)])
  have b: "fl_raw x \<le> 2 powi k" by (rule fl_raw_le_pow[OF assms(2,3)])
  have "(2::rat) powi k < 2 powi 1024" using assms(4) by (intro powi_strict_mono) simp
  then have "(2::rat) powi k < 2 ^ 1024" by (simp add: powi_nonneg_eq)
  then show ?thesis using a b by (simp add: fl_def Let_def)
qed

section \<open>Claims about the target bitrate\<close>

text \<open>
  Claim C10. For every duration \<open>\<le> 0\<close>, \<open>calculate_target_bitrate\<close> ignores the size
  and audio arguments and returns the fixed fallback 2000; this includes the duration
  \<open>0.0\<close> that \<open>get_video_info\<close> produces when the probe reports no duration.
\<close>

theorem C10_nonpositive_duration_fallback:
  "(val duration \<le> 0 \<longrightarrow>
      calculate_target_bitrate duration target_size_mb audio_bitrate_kbps = Some (PInt 2000))
   \<and> calculate_target_bitrate (video_info_duration None) target_size_mb audio_bitrate_kbps
       = Some (PInt 2000)"
  by (simp add: calculate_target_bitrate_def py_le_def video_info_duration_def)

theorem C10_nonpositive_duration_fallback_witness:
  "val (PFloat (- 5)) \<le> 0
   \<and> calculate_target_bitrate (PFloat (- 5)) (PInt 10) (PInt 192) = Some (PInt 2000)
   \<and> calculate_target_bitrate (video_info_duration None) (PInt 10) (PInt 192) = Some (PInt 2000)"
  using C10_nonpositive_duration_fallback [of "PFloat (- 5)" "PInt 10" "PInt 192"] by simp

text \<open>
  The clamp at the end of \<open>calculate_target_bitrate\<close> gives a finite number for every
  value of the formula, the non-finite ones included: \<open>inf\<close> and \<open>nan\<close> give the upper
  bound and \<open>-inf\<close> the lower one.
\<close>

lemma clamp_finite:
  "\<exists>v. x_max (Num (PInt 500)) (x_min (Num (PInt 5000)) t) = Num v"
  by (cases t) (auto simp: x_max_def x_min_def)

lemma clamp_non_finite:
  "x_max (Num (PInt 500)) (x_min (Num (PInt 5000)) PosInf) = Num (PInt 5000)"
  "x_max (Num (PInt 500)) (x_min (Num (PInt 5000)) NaN) = Num (PInt 5000)"
  "x_max (Num (PInt 500)) (x_min (Num (PInt 5000)) NegInf) = Num (PInt 500)"
  by (simp_all add: x_max_def x_min_def)

section \<open>Claims about external processes\<close>

text \<open>
  Without macOS no probe is run, and a probe that exits with a non-zero code leaves the
  snapshot as it was.
\<close>

lemma check_hardware_encoders_not_macos:
  "\<not> is_macos info \<Longrightarrow> check_hardware_encoders subprocess_run info = Inr info"
  by (simp add: check_hardware_encoders_def)

lemma check_hardware_encoders_probe_failed:
  "subprocess_run [''ffmpeg'', ''-encoders''] = Inr result \<Longrightarrow> returncode result \<noteq> 0 \<Longrightarrow>
   check_hardware_encoders subprocess_run info = Inr info"
  by (simp add: check_hardware_encoders_def run_ffmpeg_def Let_def)

text \<open>
  Claim C7 says that with the \<open>ffmpeg\<close> binary unavailable the hardware probe degrades
  to a snapshot without hardware acceleration and does not raise. On macOS with no
  \<open>ffmpeg\<close> executable, \<open>subprocess.run\<close> raises \<open>FileNotFoundError\<close>; \<open>run_ffmpeg\<close> has
  no handler for it and neither has \<open>check_hardware_encoders\<close>, so the probe raises
  instead of returning a snapshot.
\<close>

theorem C7_missing_ffmpeg_raises:
  "check_hardware_encoders ffmpeg_missing (detect_system ''Darwin'' ''arm64'' ''arm'')
     = Inl FileNotFoundError"
  by (simp add: check_hardware_encoders_def run_ffmpeg_def ffmpeg_missing_def detect_system_def Let_def)










section \<open>Claims about the size loop\<close>

lemma reencode_logs_one_call:
  "reencodes (snd (reencode_to_target_size enc target duration w))
     = reencodes w @ [(target, calculate_target_bitrate duration target (PInt 128))]"
  by (simp add: reencode_to_target_size_def Let_def split: sum.splits prod.splits)

lemma reencode_logs_one_call':
  "reencode_to_target_size enc target duration w = (r, w')
   \<Longrightarrow> reencodes w' = reencodes w @ [(target, calculate_target_bitrate duration target (PInt 128))]"
  using reencode_logs_one_call [of enc target duration w] by simp

text \<open>
  Claim C2. After an initial encode whose output exceeds the budget,
  \<open>enforce_size_limit\<close> calls \<open>reencode_to_target_size\<close> at most twice: first with the
  full budget and then at most once more with \<open>budget * 0.95\<close>, each call computing its
  bitrate with \<open>calculate_target_bitrate\<close> and audio bitrate 128. The function has no
  loop: it is a total, non-recursive function of its inputs.
\<close>

theorem C2_at_most_two_reencodes:
  "\<exists>attempts.
      reencodes (snd (enforce_size_limit enc budget duration w)) = reencodes w @ attempts
    \<and> length attempts \<le> 2
    \<and> (attempts = []
       \<or> attempts = [(PInt budget, calculate_target_bitrate duration (PInt budget) (PInt 128))]
       \<or> (\<exists>aggressive.
             py_mul (PInt budget) (float_literal (95 / 100)) = Some aggressive
           \<and> attempts = [(PInt budget, calculate_target_bitrate duration (PInt budget) (PInt 128)),
                          (aggressive, calculate_target_bitrate duration aggressive (PInt 128))]))"
  by (auto simp: enforce_size_limit_def Let_def
           split: option.splits prod.splits sum.splits if_splits
           dest!: reencode_logs_one_call')

lemma stubborn_run:
  "enforce_size_limit stubborn_encoder 10 (PFloat 60) oversized_world
     = (Inr False,
        \<lparr>output_file = Some 12, oversized_tmp = None, overlay_tmp = [],
         reencodes = [(PInt 10, Some (PFloat (5027368264033685 / 4398046511104))),
                      (PFloat (19 / 2), Some (PFloat (4750667102928041 / 4398046511104)))]\<rparr>)"
  by code_simp

theorem C2_at_most_two_reencodes_witness:
  "fst (enforce_size_limit stubborn_encoder 10 (PFloat 60) oversized_world) = Inr False
   \<and> length (reencodes (snd (enforce_size_limit stubborn_encoder 10 (PFloat 60) oversized_world))) = 2
   \<and> map fst (reencodes (snd (enforce_size_limit stubborn_encoder 10 (PFloat 60) oversized_world)))
       = [PInt 10, PFloat (19 / 2)]"
  using C2_at_most_two_reencodes [of stubborn_encoder 10 "PFloat 60" oversized_world] stubborn_run
  by simp

section \<open>Claims about the temporary overlay assets\<close>

lemma plan_800x400:
  "plan_geometry 800 400 =
     Some \<lparr>crop_width = 300, crop_height = 400, crop_x = 250, crop_y = 0,
           radius = 13, border_size = 2, canvas_width = 360, canvas_height = 480,
           paste_x = 28, paste_y = 0\<rparr>"
  by code_simp

text \<open>
  Where the first encode returns and \<open>shutil.rmtree\<close> works, the overlay directory and
  its two images are gone afterwards.
\<close>

lemma completed_job_cleans_up:
  "overlay_tmp (snd (process_one_video completed_job ''/tmp/tmpq1'' ''clip'' 10 empty_world)) = []"
  by (simp add: process_one_video_def completed_job_def empty_world_def plan_800x400
        run_ffmpeg_with_progress_def enforce_size_limit_def Let_def split: prod.splits)

text \<open>
  Claim C6 says that the per-file temporary mask and border images and their directory
  are deleted on every exit path of a file's processing, an operator interrupt during
  the encode included. In the code \<open>shutil.rmtree(tmpdir)\<close> is an ordinary statement
  after the call of \<open>run_ffmpeg_with_progress\<close>, not a \<open>finally\<close> clause: when the
  call raises \<open>KeyboardInterrupt\<close> the handler only re-raises, and the directory with
  both images stays on disk.
\<close>

theorem C6_interrupt_leaves_overlay_files:
  "process_one_video interrupted_job ''/tmp/tmpq1'' ''clip'' 10 empty_world
     = (Propagated KeyboardInterrupt,
        \<lparr>output_file = None, oversized_tmp = None,
         overlay_tmp = [''/tmp/tmpq1/clip_border.png'', ''/tmp/tmpq1/clip_mask.png'', ''/tmp/tmpq1''],
         reencodes = []\<rparr>)"
  by (simp add: process_one_video_def interrupted_job_def empty_world_def plan_800x400
        run_ffmpeg_with_progress_def on_exception_def caught_by_except_Exception_def Let_def)

section \<open>The bitrate of the example\<close>

lemma bitrate_60_10_192:
  "calculate_target_bitrate (PInt 60) (PInt 10) (PInt 192)
     = Some (PFloat (2387020392497047 / 2199023255552))"
  by code_simp

text \<open>
  Claim C5 says that \<open>calculate_target_bitrate(60, 10, 192)\<close> lies strictly within
  \<open>[500, 5000]\<close> and is about 1098 kbps. The value lies within the bounds, but the
  formula \<open>(10*8*1024*1024 - 192000*60)/60/1000*0.90\<close> evaluates to 1085.4912, which is
  more than 12 kbps away from 1098.
\<close>

theorem C5_not_1098_counterexample:
  "\<bar>val (the (calculate_target_bitrate (PInt 60) (PInt 10) (PInt 192))) - 1098\<bar> > 12"
  by (simp add: bitrate_60_10_192)

text \<open>
  Claim C5 as amended: the value lies strictly between 500 and 5000 and agrees with the
  exact value \<open>10854912 / 10000\<close> of the formula up to \<open>10\<^sup>-\<^sup>9\<close>.
\<close>

theorem C5_bitrate_example:
  "\<exists>v. calculate_target_bitrate (PInt 60) (PInt 10) (PInt 192) = Some (PFloat v)
       \<and> 500 < v \<and> v < 5000
       \<and> \<bar>v - ((10 * 8 * 1024 * 1024 - 192000 * 60) / 60 / 1000) * (90 / 100)\<bar> < 1 / 10 ^ 9
       \<and> \<bar>v - 10854912 / 10000\<bar> < 1 / 10 ^ 9"
  by (rule exI [of _ "2387020392497047 / 2199023255552"]) (simp add: bitrate_60_10_192)

section \<open>Facts about the constants of the geometry\<close>

lemma target_ratio: "py_truediv (PInt 3) (PInt 4) = Some (PFloat (3 / 4))"
  by code_simp

lemma fl_raw_hundredth: "fl_raw (1 / 100) = 5764607523034235 / 576460752303423488"
  by code_simp

lemma fl_raw_1: "fl_raw 1 = 1"
  by code_simp

lemma fl_raw_128th: "fl_raw (1 / 128) = 1 / 128"
  by code_simp

lemma fl_raw_97: "fl_raw (97 / 128) = 97 / 128"
  by code_simp

lemma fl_raw_95: "fl_raw (95 / 128) = 95 / 128"
  by code_simp

lemma fl_raw_74: "fl_raw (37 / 50) = 3332663724254167 / 4503599627370496"
  by code_simp

lemma fl_raw_74_minus: "fl_raw (3332663724254167 / 4503599627370496 - 3 / 4) = - (45035996273705 / 4503599627370496)"
  by code_simp

section \<open>Which branch of the crop is taken\<close>

lemma py_truediv_int_Some:
  assumes "py_truediv (PInt m) (PInt n) = Some v"
  shows "n \<noteq> 0" and "v = PFloat (fl_raw (of_int m / of_int n))"
  using assms by (auto simp: fl_Some_iff split: if_splits)

lemma py_sub_float_Some:
  assumes "py_sub (PFloat x) (PFloat y) = Some d"
  shows "d = PFloat (fl_raw (x - y))"
  using assms by (auto simp: fl_Some_iff)

lemma wide_ratio:
  assumes "\<not> \<bar>fl_raw (r - 3 / 4)\<bar> < fl_raw (1 / 100)" and "3 / 4 < r" and "r = fl_raw q"
  shows "97 / 128 < q"
proof (rule ccontr)
  assume "\<not> 97 / 128 < q"
  then have "q \<le> 97 / 128" by simp
  then have "fl_raw q \<le> fl_raw (97 / 128)" by (rule fl_raw_mono)
  then have r: "r \<le> 97 / 128" using assms(3) by (simp add: fl_raw_97)
  then have "r - 3 / 4 \<le> 1 / 128" by simp
  then have "fl_raw (r - 3 / 4) \<le> fl_raw (1 / 128)" by (rule fl_raw_mono)
  then have u: "fl_raw (r - 3 / 4) \<le> 1 / 128" by (simp add: fl_raw_128th)
  have "0 \<le> r - 3 / 4" using assms(2) by simp
  then have "0 \<le> fl_raw (r - 3 / 4)" by (rule fl_raw_nonneg)
  with u have "\<bar>fl_raw (r - 3 / 4)\<bar> \<le> 1 / 128" by simp
  also have "(1 / 128 :: rat) < fl_raw (1 / 100)" by (simp add: fl_raw_hundredth)
  finally show False using assms(1) by simp
qed

lemma tall_ratio:
  assumes "\<not> \<bar>fl_raw (r - 3 / 4)\<bar> < fl_raw (1 / 100)" and "\<not> 3 / 4 < r" and "r = fl_raw q"
  shows "q < 95 / 128"
proof (rule ccontr)
  assume "\<not> q < 95 / 128"
  then have "95 / 128 \<le> q" by simp
  then have "fl_raw (95 / 128) \<le> fl_raw q" by (rule fl_raw_mono)
  then have r: "95 / 128 \<le> r" using assms(3) by (simp add: fl_raw_95)
  then have "- (1 / 128) \<le> r - 3 / 4" by simp
  then have "fl_raw (- (1 / 128)) \<le> fl_raw (r - 3 / 4)" by (rule fl_raw_mono)
  then have l: "- (1 / 128) \<le> fl_raw (r - 3 / 4)" by (simp add: fl_raw_minus fl_raw_128th)
  have "r - 3 / 4 \<le> 0" using assms(2) by simp
  then have "fl_raw (r - 3 / 4) \<le> 0" by (rule fl_raw_nonpos)
  with l have "\<bar>fl_raw (r - 3 / 4)\<bar> \<le> 1 / 128" by simp
  also have "(1 / 128 :: rat) < fl_raw (1 / 100)" by (simp add: fl_raw_hundredth)
  finally show False using assms(1) by simp
qed

lemma tall_branch_taken:
  assumes "q < 37 / 50" and "r = fl_raw q"
  shows "\<not> \<bar>fl_raw (r - 3 / 4)\<bar> < fl_raw (1 / 100)" and "\<not> 3 / 4 < r"
proof -
  have "q \<le> 37 / 50" using assms(1) by simp
  then have "fl_raw q \<le> fl_raw (37 / 50)" by (rule fl_raw_mono)
  then have r: "r \<le> 3332663724254167 / 4503599627370496" using assms(2) by (simp add: fl_raw_74)
  then show "\<not> 3 / 4 < r" by simp
  from r have "r - 3 / 4 \<le> 3332663724254167 / 4503599627370496 - 3 / 4" by simp
  then have "fl_raw (r - 3 / 4) \<le> fl_raw (3332663724254167 / 4503599627370496 - 3 / 4)"
    by (rule fl_raw_mono)
  then have "fl_raw (r - 3 / 4) \<le> - (45035996273705 / 4503599627370496)"
    by (simp only: fl_raw_74_minus)
  then show "\<not> \<bar>fl_raw (r - 3 / 4)\<bar> < fl_raw (1 / 100)"
    by (simp add: fl_raw_hundredth)
qed

section \<open>The three branches of the crop\<close>

lemma crop_box_branches:
  assumes "crop_box W H = Some (cw, ch, cx, cy)"
  obtains r where "H \<noteq> 0" and "r = fl_raw (of_int W / of_int H)"
    and "(if \<bar>fl_raw (r - 3 / 4)\<bar> < fl_raw (1 / 100) then Some (W, H, 0, 0)
          else if 3 / 4 < r then
            do { w \<leftarrow> py_mul (PInt H) (PFloat (3 / 4));
                 Some (py_int w, H, (W - py_int w) div 2, 0) }
          else
            do { h \<leftarrow> py_truediv (PInt W) (PFloat (3 / 4));
                 Some (W, py_int h, 0, 0) }) = Some (cw, ch, cx, cy)"
proof -
  have unfold: "crop_box W H = do {
      video_ratio \<leftarrow> py_truediv (PInt W) (PInt H);
      d \<leftarrow> py_sub video_ratio (PFloat (3 / 4));
      if py_lt (py_abs d) (float_literal (1 / 100)) then Some (W, H, 0, 0)
      else if py_lt (PFloat (3 / 4)) video_ratio then
        do { w \<leftarrow> py_mul (PInt H) (PFloat (3 / 4));
             Some (py_int w, H, (W - py_int w) div 2, 0) }
      else
        do { h \<leftarrow> py_truediv (PInt W) (PFloat (3 / 4));
             Some (W, py_int h, 0, 0) } }"
    unfolding crop_box_def target_ratio by (simp only: bind.simps Let_def)
  from assms obtain vr d where vr: "py_truediv (PInt W) (PInt H) = Some vr"
    and d: "py_sub vr (PFloat (3 / 4)) = Some d"
    and rest: "(if py_lt (py_abs d) (float_literal (1 / 100)) then Some (W, H, 0, 0)
      else if py_lt (PFloat (3 / 4)) vr then
        do { w \<leftarrow> py_mul (PInt H) (PFloat (3 / 4));
             Some (py_int w, H, (W - py_int w) div 2, 0) }
      else
        do { h \<leftarrow> py_truediv (PInt W) (PFloat (3 / 4));
             Some (W, py_int h, 0, 0) }) = Some (cw, ch, cx, cy)"
    unfolding unfold by (auto simp del: py_truediv.simps py_sub.simps py_mul.simps split: Option.bind_splits)
  define r where "r = fl_raw (of_int W / of_int H)"
  from py_truediv_int_Some [OF vr] have H: "H \<noteq> 0" and vr_eq: "vr = PFloat r"
    by (simp_all add: r_def)
  from py_sub_float_Some [OF d [unfolded vr_eq]] have d_eq: "d = PFloat (fl_raw (r - 3 / 4))" .
  from rest have "(if \<bar>fl_raw (r - 3 / 4)\<bar> < fl_raw (1 / 100) then Some (W, H, 0, 0)
          else if 3 / 4 < r then
            do { w \<leftarrow> py_mul (PInt H) (PFloat (3 / 4));
                 Some (py_int w, H, (W - py_int w) div 2, 0) }
          else
            do { h \<leftarrow> py_truediv (PInt W) (PFloat (3 / 4));
                 Some (W, py_int h, 0, 0) }) = Some (cw, ch, cx, cy)"
    unfolding vr_eq d_eq py_lt_def float_literal_def py_abs.simps val.simps .
  with H r_def show thesis by (rule that)
qed

lemma crop_box_cases:
  assumes "crop_box W H = Some (cw, ch, cx, cy)"
  shows "H \<noteq> 0 \<and>
     (cw = W \<and> ch = H \<and> cx = 0 \<and> cy = 0
      \<or> 97 / 128 < (of_int W / of_int H :: rat)
        \<and> (\<exists>p. py_mul (PInt H) (PFloat (3 / 4)) = Some p \<and> cw = py_int p)
        \<and> ch = H \<and> cx = (W - cw) div 2 \<and> cy = 0
      \<or> (of_int W / of_int H :: rat) < 95 / 128
        \<and> cw = W
        \<and> (\<exists>h. py_truediv (PInt W) (PFloat (3 / 4)) = Some h \<and> ch = py_int h)
        \<and> cx = 0 \<and> cy = 0)"
proof -
  from assms obtain r where H: "H \<noteq> 0" and r: "r = fl_raw (of_int W / of_int H)"
    and unfolded: "(if \<bar>fl_raw (r - 3 / 4)\<bar> < fl_raw (1 / 100) then Some (W, H, 0, 0)
          else if 3 / 4 < r then
            do { w \<leftarrow> py_mul (PInt H) (PFloat (3 / 4));
                 Some (py_int w, H, (W - py_int w) div 2, 0) }
          else
            do { h \<leftarrow> py_truediv (PInt W) (PFloat (3 / 4));
                 Some (W, py_int h, 0, 0) }) = Some (cw, ch, cx, cy)"
    by (rule crop_box_branches)
  show ?thesis
  proof (cases "\<bar>fl_raw (r - 3 / 4)\<bar> < fl_raw (1 / 100)")
    case True
    with unfolded H show ?thesis by simp
  next
    case no: False
    show ?thesis
    proof (cases "3 / 4 < r")
      case True
      from wide_ratio [OF no True r] have "97 / 128 < (of_int W / of_int H :: rat)" .
      with unfolded no True H show ?thesis
        by (auto simp del: py_truediv.simps py_sub.simps py_mul.simps split: Option.bind_splits)
    next
      case False
      from tall_ratio [OF no False r] have "(of_int W / of_int H :: rat) < 95 / 128" .
      with unfolded no False H show ?thesis
        by (auto simp del: py_truediv.simps py_sub.simps py_mul.simps split: Option.bind_splits)
    qed
  qed
qed

lemma crop_box_tall:
  assumes "crop_box W H = Some (cw, ch, cx, cy)" and "(of_int W / of_int H :: rat) < 37 / 50"
  shows "cw = W \<and> (\<exists>h. py_truediv (PInt W) (PFloat (3 / 4)) = Some h \<and> ch = py_int h)
         \<and> cx = 0 \<and> cy = 0"
proof -
  from assms(1) obtain r where H: "H \<noteq> 0" and r: "r = fl_raw (of_int W / of_int H)"
    and unfolded: "(if \<bar>fl_raw (r - 3 / 4)\<bar> < fl_raw (1 / 100) then Some (W, H, 0, 0)
          else if 3 / 4 < r then
            do { w \<leftarrow> py_mul (PInt H) (PFloat (3 / 4));
                 Some (py_int w, H, (W - py_int w) div 2, 0) }
          else
            do { h \<leftarrow> py_truediv (PInt W) (PFloat (3 / 4));
                 Some (W, py_int h, 0, 0) }) = Some (cw, ch, cx, cy)"
    by (rule crop_box_branches)
  from tall_branch_taken [OF assms(2) r]
  have no: "\<not> \<bar>fl_raw (r - 3 / 4)\<bar> < fl_raw (1 / 100)" and nw: "\<not> 3 / 4 < r" .
  with unfolded show ?thesis
    by (auto simp del: py_truediv.simps py_sub.simps py_mul.simps split: Option.bind_splits)
qed

section \<open>Bounds on the cropped sizes\<close>

lemma tiny_le_half: "(2::rat) powi (- 1022) \<le> 1 / 2"
  using powi_mono [of "- 1022" "- 1"] powi_neg_eq [of 1] by simp

lemma fl_raw_upper:
  assumes "1 / 2 \<le> y"
  shows "fl_raw y \<le> y * (1001 / 1000)"
proof -
  have "(2::rat) powi (- 1022) \<le> y" using tiny_le_half assms by linarith
  then have "\<bar>fl_raw y - y\<bar> \<le> y / 2 ^ 53" by (rule fl_raw_rel_error)
  then have "fl_raw y \<le> y + y / 2 ^ 53" by linarith
  also have "y / 2 ^ 53 \<le> y / 1000" using assms by (intro divide_left_mono) simp_all
  finally show ?thesis by simp
qed

lemma to_float_pos:
  assumes "0 < n" and "to_float (PInt n) = Some x"
  shows "1 \<le> x" and "x \<le> of_int n * (1001 / 1000)"
proof -
  from assms(2) have x: "x = fl_raw (of_int n)" by (simp add: fl_Some_iff)
  have n: "(1::rat) \<le> of_int n" using assms(1) by simp
  then have "fl_raw 1 \<le> fl_raw (of_int n)" by (rule fl_raw_mono)
  then show "1 \<le> x" by (simp add: x fl_raw_1)
  from n have "1 / 2 \<le> (of_int n :: rat)" by linarith
  then show "x \<le> of_int n * (1001 / 1000)" unfolding x by (rule fl_raw_upper)
qed

lemma wide_crop_width:
  assumes "0 < H" and "py_mul (PInt H) (PFloat (3 / 4)) = Some p"
  shows "0 \<le> py_int p" and "of_int (py_int p) \<le> (97 / 128) * (of_int H :: rat)"
proof -
  from assms(2) obtain x where x: "to_float (PInt H) = Some x"
    and p: "p = PFloat (fl_raw (x * (3 / 4)))"
    by (auto simp: fl_Some_iff split: Option.bind_splits)
  from to_float_pos [OF assms(1) x] have x1: "1 \<le> x" and x2: "x \<le> of_int H * (1001 / 1000)" .
  define y where "y = fl_raw (x * (3 / 4))"
  have "0 \<le> x * (3 / 4)" using x1 by simp
  then have y0: "0 \<le> y" unfolding y_def by (rule fl_raw_nonneg)
  have "1 / 2 \<le> x * (3 / 4)" using x1 by simp
  then have "y \<le> x * (3 / 4) * (1001 / 1000)" unfolding y_def by (rule fl_raw_upper)
  also have "\<dots> \<le> of_int H * (1001 / 1000) * (3 / 4) * (1001 / 1000)" using x2 by simp
  also have "\<dots> \<le> (97 / 128) * of_int H" using assms(1) by simp
  finally have y1: "y \<le> (97 / 128) * of_int H" .
  have pi: "py_int p = \<lfloor>y\<rfloor>" using y0 by (simp add: p y_def)
  show "0 \<le> py_int p" using y0 by (simp add: pi)
  have "of_int \<lfloor>y\<rfloor> \<le> y" by simp
  with y1 show "of_int (py_int p) \<le> (97 / 128) * (of_int H :: rat)" unfolding pi by linarith
qed

lemma tall_crop_height:
  assumes "0 < W" and "py_truediv (PInt W) (PFloat (3 / 4)) = Some h"
  shows "0 \<le> py_int h" and "of_int (py_int h) \<le> (128 / 95) * (of_int W :: rat)"
proof -
  from assms(2) obtain x where x: "to_float (PInt W) = Some x"
    and h: "h = PFloat (fl_raw (x / (3 / 4)))"
    by (auto simp: fl_Some_iff split: Option.bind_splits if_splits)
  from to_float_pos [OF assms(1) x] have x1: "1 \<le> x" and x2: "x \<le> of_int W * (1001 / 1000)" .
  define y where "y = fl_raw (x / (3 / 4))"
  have "0 \<le> x / (3 / 4)" using x1 by simp
  then have y0: "0 \<le> y" unfolding y_def by (rule fl_raw_nonneg)
  have "1 / 2 \<le> x / (3 / 4)" using x1 by simp
  then have "y \<le> x / (3 / 4) * (1001 / 1000)" unfolding y_def by (rule fl_raw_upper)
  also have "\<dots> \<le> of_int W * (1001 / 1000) / (3 / 4) * (1001 / 1000)" using x2 by simp
  also have "\<dots> \<le> (128 / 95) * of_int W" using assms(1) by simp
  finally have y1: "y \<le> (128 / 95) * of_int W" .
  have pi: "py_int h = \<lfloor>y\<rfloor>" using y0 by (simp add: h y_def)
  show "0 \<le> py_int h" using y0 by (simp add: pi)
  have "of_int \<lfloor>y\<rfloor> \<le> y" by simp
  with y1 show "of_int (py_int h) \<le> (128 / 95) * (of_int W :: rat)" unfolding pi by linarith
qed

section \<open>The parts of a plan\<close>

lemma force_even_even: "even (force_even x)"
  by (auto simp: force_even_def)

lemma force_even_le: "force_even x \<le> x"
  by (simp add: force_even_def)

lemma force_even_nonneg: "0 \<le> x \<Longrightarrow> 0 \<le> force_even x"
  unfolding force_even_def by presburger

lemma force_even_of_even: "even x \<Longrightarrow> force_even x = x"
  by (auto simp: force_even_def)

lemma plan_geometry_parts:
  assumes "plan_geometry W H = Some g"
  obtains cw ch r where "crop_box W H = Some (cw, ch, crop_x g, crop_y g)"
    and "crop_width g = force_even cw" and "crop_height g = force_even ch"
    and "border_metrics (crop_width g) = Some (r, border_size g)"
    and "canvas_size (crop_width g) (crop_height g) (border_size g)
           = Some (canvas_width g, canvas_height g)"
    and "paste_x g = (canvas_width g - (crop_width g + border_size g * 2)) div 2"
    and "paste_y g = 0"
  using assms unfolding plan_geometry_def
  by (auto simp: Let_def split: Option.bind_splits prod.splits)

lemma canvas_size_even:
  assumes "canvas_size cw ch b = Some (w, h)"
  shows "even w" and "even h"
  using assms unfolding canvas_size_def
  by (auto simp: Let_def force_even_even simp del: py_mul.simps py_truediv.simps
           split: Option.bind_splits prod.splits if_splits)

section \<open>Rounding errors\<close>

lemma fl_raw_0: "fl_raw 0 = 0"
  by (simp add: fl_raw_def)

lemma fl_raw_4: "fl_raw 4 = 4"
  by code_simp

lemma fl_raw_ge_1: "1 \<le> y \<Longrightarrow> 1 \<le> fl_raw y"
  using fl_raw_mono [of 1 y] by (simp add: fl_raw_1)

lemma tiny_le_eighth: "(2::rat) powi (- 1022) \<le> 1 / 8"
  using powi_mono [of "- 1022" "- 3"] powi_neg_eq [of 3] by simp

lemma fl_raw_err:
  assumes "y = 0 \<or> 1 / 8 \<le> y"
  shows "\<bar>fl_raw y - y\<bar> \<le> y / 10 ^ 15"
proof (cases "y = 0")
  case True
  then show ?thesis by (simp add: fl_raw_0)
next
  case False
  with assms have y: "1 / 8 \<le> y" by simp
  then have "(2::rat) powi (- 1022) \<le> y" using tiny_le_eighth by linarith
  then have "\<bar>fl_raw y - y\<bar> \<le> y / 2 ^ 53" by (rule fl_raw_rel_error)
  also have "y / 2 ^ 53 \<le> y / 10 ^ 15" using y by (intro divide_left_mono) simp_all
  finally show ?thesis .
qed

lemma fl_raw_err2:
  assumes "y = 0 \<or> 1 / 8 \<le> y"
  shows "y - y / 1000000000000000 \<le> fl_raw y" and "fl_raw y \<le> y + y / 1000000000000000"
proof -
  have "\<bar>fl_raw y - y\<bar> \<le> y / 10 ^ 15" using assms by (rule fl_raw_err)
  then have "\<bar>fl_raw y - y\<bar> \<le> y / 1000000000000000" by simp
  then show "y - y / 1000000000000000 \<le> fl_raw y" and "fl_raw y \<le> y + y / 1000000000000000"
    unfolding abs_le_iff by linarith+
qed

lemma abs_le_2_40: "- 1099511627776 \<le> x \<Longrightarrow> x \<le> 1099511627776 \<Longrightarrow> \<bar>x :: rat\<bar> \<le> 2 ^ 40"
  by (simp add: abs_le_iff)

lemma fl_ok:
  assumes "\<bar>x\<bar> \<le> 2 ^ 40"
  shows "fl x = Some (fl_raw x)"
proof -
  have p: "(2::rat) powi 40 = 2 ^ 40" using powi_nonneg_eq [of 40] by simp
  have "x \<le> 2 powi 40" using assms by (simp add: p)
  then have a: "fl_raw x \<le> 2 powi 40" by (rule fl_raw_le_pow) simp
  have "- x \<le> 2 powi 40" using assms by (simp add: p)
  then have "fl_raw (- x) \<le> 2 powi 40" by (rule fl_raw_le_pow) simp
  then have b: "- fl_raw x \<le> 2 powi 40" by (simp add: fl_raw_minus)
  from a b have "\<bar>fl_raw x\<bar> \<le> 2 ^ 40" by (simp add: p abs_le_iff)
  also have "(2::rat) ^ 40 < 2 ^ 1024" by (rule power_strict_increasing) simp_all
  finally show ?thesis by (simp add: fl_Some_iff)
qed

lemma rne_unique:
  assumes "\<bar>q - of_int n\<bar> < 1 / 2"
  shows "rne q = n"
proof -
  have "q - 1 / 2 \<le> of_int (rne q)" by (rule rne_lower)
  moreover have "of_int (rne q) \<le> q + 1 / 2" by (rule rne_upper)
  ultimately have "(of_int (rne q) :: rat) < of_int n + 1" and "(of_int n :: rat) < of_int (rne q) + 1"
    using assms by linarith+
  then have "(of_int (rne q) :: rat) < of_int (n + 1)" and "(of_int n :: rat) < of_int (rne q + 1)"
    by simp_all
  then have "rne q < n + 1" and "n < rne q + 1" by (simp_all only: of_int_less_iff)
  then show ?thesis by simp
qed

lemma rne_near_fifth:
  assumes "\<bar>q - of_int (3 * m) / 5\<bar> < 1 / 10"
  shows "rne q = rne (of_int (3 * m) / 5)"
proof -
  define x :: rat where "x = of_int (3 * m) / 5"
  define k where "k = rne x"
  have "x - 1 / 2 \<le> of_int k" unfolding k_def by (rule rne_lower)
  moreover have "of_int k \<le> x + 1 / 2" unfolding k_def by (rule rne_upper)
  ultimately have "(of_int (3 * m - 5 * k) :: rat) < of_int 3" and "(of_int (- 3) :: rat) < of_int (3 * m - 5 * k)"
    by (simp_all add: x_def)
  then have "3 * m - 5 * k < 3" and "- 3 < 3 * m - 5 * k" by (simp_all only: of_int_less_iff)
  then have "3 * m - 5 * k \<le> 2" and "- 2 \<le> 3 * m - 5 * k" by simp_all
  then have "(of_int (3 * m - 5 * k) :: rat) \<le> of_int 2" and "(of_int (- 2) :: rat) \<le> of_int (3 * m - 5 * k)"
    by (simp_all only: of_int_le_iff)
  then have "(3 * of_int m - 5 * of_int k :: rat) \<le> 2" and "(- 2 :: rat) \<le> 3 * of_int m - 5 * of_int k"
    by simp_all
  then have "\<bar>3 * of_int m / 5 - of_int k :: rat\<bar> \<le> 2 / 5"
    unfolding abs_le_iff by (intro conjI; linarith)
  then have "\<bar>x - of_int k\<bar> \<le> 2 / 5" by (simp add: x_def)
  with assms have "\<bar>q - of_int k\<bar> < 1 / 2" unfolding x_def by linarith
  then have "rne q = k" by (rule rne_unique)
  then show ?thesis by (simp add: k_def x_def)
qed

lemma rne_near_third:
  assumes "\<bar>q - of_int c / 3\<bar> < 1 / 6"
  shows "rne q = rne (of_int c / 3)"
proof -
  define x :: rat where "x = of_int c / 3"
  define k where "k = rne x"
  have "x - 1 / 2 \<le> of_int k" unfolding k_def by (rule rne_lower)
  moreover have "of_int k \<le> x + 1 / 2" unfolding k_def by (rule rne_upper)
  ultimately have "(of_int (c - 3 * k) :: rat) < of_int 2" and "(of_int (- 2) :: rat) < of_int (c - 3 * k)"
    by (simp_all add: x_def)
  then have "c - 3 * k < 2" and "- 2 < c - 3 * k" by (simp_all only: of_int_less_iff)
  then have "c - 3 * k \<le> 1" and "- 1 \<le> c - 3 * k" by simp_all
  then have "(of_int (c - 3 * k) :: rat) \<le> of_int 1" and "(of_int (- 1) :: rat) \<le> of_int (c - 3 * k)"
    by (simp_all only: of_int_le_iff)
  then have "(of_int c - 3 * of_int k :: rat) \<le> 1" and "(- 1 :: rat) \<le> of_int c - 3 * of_int k"
    by simp_all
  then have "\<bar>of_int c / 3 - of_int k :: rat\<bar> \<le> 1 / 3"
    unfolding abs_le_iff by (intro conjI; linarith)
  then have "\<bar>x - of_int k\<bar> \<le> 1 / 3" by (simp add: x_def)
  with assms have "\<bar>q - of_int k\<bar> < 1 / 2" unfolding x_def by linarith
  then have "rne q = k" by (rule rne_unique)
  then show ?thesis by (simp add: k_def x_def)
qed

section \<open>The canvas in floats and in exact arithmetic\<close>

lemma fl_raw_12: "fl_raw (12 / 10) = 5404319552844595 / 4503599627370496"
  by code_simp

lemma fl_raw_6_5: "fl_raw (6 / 5) = 5404319552844595 / 4503599627370496"
  using fl_raw_12 by simp

lemma fl_4: "fl 4 = Some 4"
  using fl_ok [of 4] by (simp add: fl_raw_4)

lemma fl_raw_zero_or_ge_1:
  assumes "y = 0 \<or> 1 \<le> y"
  shows "fl_raw y = 0 \<or> 1 \<le> fl_raw y"
  using assms fl_raw_ge_1 [of y] by (auto simp: fl_raw_0)

lemma canvas_height_exact:
  assumes "even ch" and "0 \<le> ch" and "ch \<le> 2 ^ 32"
  shows "\<exists>t q. py_mul (PInt ch) (float_literal (12 / 10)) = Some (PFloat t)
           \<and> py_truediv (PFloat t) (PInt 4) = Some (PFloat q)
           \<and> rne q = rne (of_int ch * (12 / 10) / 4)"
proof -
  define c :: rat where "c = of_int ch"
  define x0 where "x0 = fl_raw c"
  define x1 where "x1 = x0 * (5404319552844595 / 4503599627370496)"
  define t where "t = fl_raw x1"
  define q where "q = fl_raw (t / 4)"
  have c0: "0 \<le> c" using assms(2) by (simp add: c_def)
  have "c \<le> of_int (2 ^ 32)" unfolding c_def using assms(3) by (simp only: of_int_le_iff)
  then have c1: "c \<le> 4294967296" by simp
  have cz: "c = 0 \<or> 1 \<le> c"
  proof (cases "ch = 0")
    case True then show ?thesis by (simp add: c_def)
  next
    case False
    with assms(2) have "1 \<le> ch" by simp
    then have "(of_int 1 :: rat) \<le> of_int ch" by (simp only: of_int_le_iff)
    then show ?thesis by (simp add: c_def)
  qed
  then have "c = 0 \<or> 1 / 8 \<le> c" by auto
  then have e0: "c - c / 1000000000000000 \<le> x0" "x0 \<le> c + c / 1000000000000000"
    unfolding x0_def by (rule fl_raw_err2)+
  have x0z: "x0 = 0 \<or> 1 \<le> x0" unfolding x0_def using cz by (rule fl_raw_zero_or_ge_1)
  then have x1z: "x1 = 0 \<or> 1 \<le> x1" by (auto simp: x1_def)
  then have "x1 = 0 \<or> 1 / 8 \<le> x1" by auto
  then have e1: "x1 - x1 / 1000000000000000 \<le> t" "t \<le> x1 + x1 / 1000000000000000"
    unfolding t_def by (rule fl_raw_err2)+
  have tz: "t = 0 \<or> 1 \<le> t" unfolding t_def using x1z by (rule fl_raw_zero_or_ge_1)
  then have "t / 4 = 0 \<or> 1 / 8 \<le> t / 4" by auto
  then have e2: "t / 4 - t / 4 / 1000000000000000 \<le> q" "q \<le> t / 4 + t / 4 / 1000000000000000"
    unfolding q_def by (rule fl_raw_err2)+
  have b0: "\<bar>c\<bar> \<le> 2 ^ 40" using c0 c1 by (intro abs_le_2_40) linarith+
  have b1: "\<bar>x0 * (5404319552844595 / 4503599627370496)\<bar> \<le> 2 ^ 40"
    using e0 c0 c1 by (intro abs_le_2_40) linarith+
  have b2: "\<bar>t / 4\<bar> \<le> 2 ^ 40"
    using e0 e1 c0 c1 unfolding x1_def by (intro abs_le_2_40) linarith+
  have m: "py_mul (PInt ch) (float_literal (12 / 10)) = Some (PFloat t)"
    using fl_ok [OF b0] fl_ok [OF b1]
    by (simp add: float_literal_def fl_raw_6_5 c_def x0_def x1_def t_def)
  have d: "py_truediv (PFloat t) (PInt 4) = Some (PFloat q)"
    using fl_ok [OF b2] by (simp add: fl_4 q_def)
  from assms(1) obtain m where ch: "ch = 2 * m" by (elim evenE)
  have spec: "c * (12 / 10) / 4 = of_int (3 * m) / 5" by (simp add: c_def ch)
  have "\<bar>q - c * (12 / 10) / 4\<bar> < 1 / 10"
    using e0 e1 e2 c0 c1 unfolding x1_def abs_less_iff by (intro conjI; linarith)
  then have "\<bar>q - of_int (3 * m) / 5\<bar> < 1 / 10" by (simp only: spec)
  then have "rne q = rne (of_int (3 * m) / 5)" by (rule rne_near_fifth)
  then have "rne q = rne (of_int ch * (12 / 10) / 4)" using spec by (simp add: c_def)
  with m d show ?thesis by blast
qed

lemma canvas_widened_exact:
  assumes "2 \<le> c" and "c \<le> 2 ^ 34"
  shows "\<exists>a b. py_truediv (PInt (c * 4)) (PInt 3) = Some (PFloat a)
           \<and> py_truediv (PFloat a) (PInt 4) = Some (PFloat b)
           \<and> rne b = rne ((of_int c * 4 / 3) / 4)"
proof -
  define x :: rat where "x = of_int c"
  define y where "y = x * 4 / 3"
  define a where "a = fl_raw y"
  define a4 where "a4 = a / 4"
  define b where "b = fl_raw a4"
  have "(of_int 2 :: rat) \<le> of_int c" using assms(1) by (simp only: of_int_le_iff)
  then have x0: "2 \<le> x" by (simp add: x_def)
  have "x \<le> of_int (2 ^ 34)" unfolding x_def using assms(2) by (simp only: of_int_le_iff)
  then have x1: "x \<le> 17179869184" by simp
  have y: "3 * y = 4 * x" by (simp add: y_def)
  have "y = 0 \<or> 1 / 8 \<le> y" using x0 y by linarith
  then have e0: "y - y / 1000000000000000 \<le> a" "a \<le> y + y / 1000000000000000"
    unfolding a_def by (rule fl_raw_err2)+
  have "1 \<le> y" using x0 y by linarith
  then have a1: "1 \<le> a" unfolding a_def by (rule fl_raw_ge_1)
  have a4: "4 * a4 = a" by (simp add: a4_def)
  have "a4 = 0 \<or> 1 / 8 \<le> a4" using a1 a4 by linarith
  then have e1: "a4 - a4 / 1000000000000000 \<le> b" "b \<le> a4 + a4 / 1000000000000000"
    unfolding b_def by (rule fl_raw_err2)+
  have b0: "\<bar>y\<bar> \<le> 2 ^ 40" using x0 x1 y by (intro abs_le_2_40) linarith+
  have b1: "\<bar>a4\<bar> \<le> 2 ^ 40" using e0 x0 x1 y a4 by (intro abs_le_2_40) linarith+
  have m: "py_truediv (PInt (c * 4)) (PInt 3) = Some (PFloat a)"
    using fl_ok [OF b0] by (simp add: a_def x_def y_def)
  have d: "py_truediv (PFloat a) (PInt 4) = Some (PFloat b)"
    using fl_ok [OF b1] by (simp add: fl_4 b_def a4_def)
  have "\<bar>b - x / 3\<bar> < 1 / 6"
    using e0 e1 x0 x1 y a4 unfolding abs_less_iff by (intro conjI; linarith)
  then have "rne b = rne (of_int c / 3)" unfolding x_def by (rule rne_near_third)
  then have "rne b = rne ((of_int c * 4 / 3) / 4)" by simp
  with m d show ?thesis by blast
qed

lemma force_even_mult4: "force_even (k * 4) = k * 4"
  by (simp add: force_even_def)

lemma canvas_size_exact:
  assumes "even cw" and "0 \<le> cw" and "cw \<le> 2 ^ 32"
    and "even ch" and "0 \<le> ch" and "ch \<le> 2 ^ 32"
    and "1 \<le> b" and "b \<le> 2 ^ 32"
  shows "canvas_size cw ch b =
           Some (force_even (fst (canvas_as_specified cw ch b)), snd (canvas_as_specified cw ch b))"
proof -
  define n where "n = rne (of_int ch * (12 / 10) / 4)"
  from canvas_height_exact [OF assms(4,5,6)] obtain t q
    where m: "py_mul (PInt ch) (float_literal (12 / 10)) = Some (PFloat t)"
      and d: "py_truediv (PFloat t) (PInt 4) = Some (PFloat q)"
      and q: "rne q = n"
    unfolding n_def by blast
  define c where "c = cw + b * 2"
  have c_even: "even c" using assms(1) by (simp add: c_def)
  have spec: "canvas_as_specified cw ch b =
      (if n * 3 < c then (c, rne ((of_int c * 4 / 3) / 4) * 4) else (n * 3, n * 4))"
    unfolding canvas_as_specified_def Let_def n_def [symmetric]
    by (simp add: c_def mult.commute)
  have code: "canvas_size cw ch b =
      (if n * 3 < c then
         do { a \<leftarrow> py_truediv (PInt (c * 4)) (PInt 3);
              b \<leftarrow> py_truediv a (PInt 4);
              Some (force_even c, force_even (py_round b * 4)) }
       else Some (force_even (n * 3), force_even (n * 4)))"
    unfolding canvas_size_def m d bind.simps Let_def py_round.simps q c_def [symmetric]
    by (simp del: py_truediv.simps)
  show ?thesis
  proof (cases "n * 3 < c")
    case True
    have "2 \<le> c" using assms(2,7) by (simp add: c_def)
    moreover have "c \<le> 2 ^ 34" using assms(3,8) by (simp add: c_def)
    ultimately obtain a b' where a: "py_truediv (PInt (c * 4)) (PInt 3) = Some (PFloat a)"
      and b': "py_truediv (PFloat a) (PInt 4) = Some (PFloat b')"
      and r: "rne b' = rne ((of_int c * 4 / 3) / 4)"
      using canvas_widened_exact [of c] by blast
    from True show ?thesis
      unfolding code spec a b' bind.simps py_round.simps r
      by (simp add: force_even_mult4 force_even_of_even [OF c_even])
  next
    case False
    then show ?thesis unfolding code spec by (simp add: force_even_mult4)
  qed
qed

section \<open>The computation returns a plan\<close>

lemma fl_raw_le_2_32:
  assumes "x \<le> 4294967296"
  shows "fl_raw x \<le> 4294967296"
proof -
  have p: "(2::rat) powi 32 = 4294967296" using powi_nonneg_eq [of 32] by simp
  have "x \<le> 2 powi 32" using assms by (simp add: p)
  then have "fl_raw x \<le> 2 powi 32" by (rule fl_raw_le_pow) simp
  then show ?thesis by (simp add: p)
qed

lemma of_int_bounds:
  assumes "0 \<le> n" and "n \<le> 2 ^ 32"
  shows "(0::rat) \<le> of_int n" and "(of_int n :: rat) \<le> 4294967296"
proof -
  show "(0::rat) \<le> of_int n" using assms(1) by simp
  have "(of_int n :: rat) \<le> of_int (2 ^ 32)" using assms(2) by (simp only: of_int_le_iff)
  then show "(of_int n :: rat) \<le> 4294967296" by simp
qed

lemma to_float_ok:
  assumes "0 \<le> n" and "n \<le> 2 ^ 32"
  shows "to_float (PInt n) = Some (fl_raw (of_int n))"
    and "0 \<le> fl_raw (of_int n)" and "fl_raw (of_int n) \<le> 4294967296"
proof -
  note b = of_int_bounds [OF assms]
  have "\<bar>of_int n :: rat\<bar> \<le> 2 ^ 40" using b by (intro abs_le_2_40) linarith+
  then show "to_float (PInt n) = Some (fl_raw (of_int n))" by (simp add: fl_ok)
  show "0 \<le> fl_raw (of_int n)" using b(1) by (rule fl_raw_nonneg)
  show "fl_raw (of_int n) \<le> 4294967296" using b(2) by (rule fl_raw_le_2_32)
qed

lemma c16: "py_truediv (PInt 16) (PInt 360) = Some (PFloat (6405119470038039 / 144115188075855872))"
  by code_simp

lemma c2: "py_truediv (PInt 2) (PInt 360) = Some (PFloat (6405119470038039 / 1152921504606846976))"
  by code_simp

lemma py_mul_const_ok:
  assumes "0 \<le> n" and "n \<le> 2 ^ 32" and "0 \<le> k" and "k \<le> 2"
  shows "\<exists>y. py_mul (PInt n) (PFloat k) = Some (PFloat y) \<and> 0 \<le> y \<and> y \<le> 4294967296 * 2"
proof -
  note f = to_float_ok [OF assms(1,2)]
  define x where "x = fl_raw (of_int n)"
  have x: "0 \<le> x" "x \<le> 4294967296" using f(2,3) by (simp_all add: x_def)
  have "x * k \<le> 4294967296 * 2" using x assms(3,4) by (intro mult_mono) simp_all
  moreover have xk: "0 \<le> x * k" using x assms(3) by simp
  ultimately have "\<bar>x * k\<bar> \<le> 2 ^ 40" by (intro abs_le_2_40) linarith+
  then have ok: "fl (x * k) = Some (fl_raw (x * k))" by (rule fl_ok)
  have "fl_raw (x * k) \<le> fl_raw (4294967296 * 2)"
    using \<open>x * k \<le> 4294967296 * 2\<close> by (rule fl_raw_mono)
  also have "fl_raw (4294967296 * 2) \<le> 4294967296 * 2"
  proof -
    have p: "(2::rat) powi 33 = 4294967296 * 2" using powi_nonneg_eq [of 33] by simp
    have "fl_raw (2 powi 33) \<le> 2 powi 33" by (rule fl_raw_le_pow) simp_all
    then show ?thesis by (simp only: p)
  qed
  finally have "fl_raw (x * k) \<le> 4294967296 * 2" .
  moreover have "0 \<le> fl_raw (x * k)" using xk by (rule fl_raw_nonneg)
  ultimately show ?thesis using f(1) ok by (simp add: x_def)
qed

lemma border_metrics_total:
  assumes "0 \<le> cw" and "cw \<le> 2 ^ 32"
  shows "\<exists>r b. border_metrics cw = Some (r, b) \<and> 1 \<le> b \<and> b \<le> 2 ^ 32"
proof -
  from py_mul_const_ok [OF assms, of "6405119470038039 / 144115188075855872"]
  obtain y where y: "py_mul (PInt cw) (PFloat (6405119470038039 / 144115188075855872)) = Some (PFloat y)"
    by auto
  note f = to_float_ok [OF assms]
  define x where "x = fl_raw (of_int cw)"
  define k :: rat where "k = 6405119470038039 / 1152921504606846976"
  have x: "0 \<le> x" "x \<le> 4294967296" using f(2,3) by (simp_all add: x_def)
  have xk: "0 \<le> x * k" "x * k \<le> 4294967296" using x unfolding k_def by linarith+
  then have "\<bar>x * k\<bar> \<le> 2 ^ 40" by (intro abs_le_2_40) linarith+
  then have ok: "fl (x * k) = Some (fl_raw (x * k))" by (rule fl_ok)
  have z: "py_mul (PInt cw) (PFloat k) = Some (PFloat (fl_raw (x * k)))"
    using f(1) ok by (simp add: x_def)
  have "fl_raw (x * k) \<le> 4294967296" using xk(2) by (rule fl_raw_le_2_32)
  then have "fl_raw (x * k) \<le> of_int (2 ^ 32)" by simp
  then have "rne (fl_raw (x * k)) \<le> 2 ^ 32" by (rule rne_le_int)
  then have "max 1 (rne (fl_raw (x * k))) \<le> 2 ^ 32" by simp
  moreover have "border_metrics cw = Some (py_int (PFloat y), max 1 (rne (fl_raw (x * k))))"
    unfolding border_metrics_def c16 c2 bind.simps y z [unfolded k_def] py_round.simps k_def ..
  ultimately show ?thesis by simp
qed

lemma crop_box_within:
  assumes "0 < W" and "0 < H" and box: "crop_box W H = Some (cw, ch, cx, cy)"
  shows "0 \<le> cx \<and> cy = 0 \<and> cx + cw \<le> W \<and> 0 \<le> cw \<and> 0 \<le> ch \<and> ch \<le> H"
proof -
  have H: "(0::rat) < of_int H" using assms(2) by simp
  from crop_box_cases [OF box]
  consider
    (same) "cw = W" "ch = H" "cx = 0" "cy = 0"
  | (wide) p where "97 / 128 < (of_int W / of_int H :: rat)"
      "py_mul (PInt H) (PFloat (3 / 4)) = Some p" "cw = py_int p"
      "ch = H" "cx = (W - cw) div 2" "cy = 0"
  | (tall) h where "(of_int W / of_int H :: rat) < 95 / 128" "cw = W"
      "py_truediv (PInt W) (PFloat (3 / 4)) = Some h" "ch = py_int h"
      "cx = 0" "cy = 0"
    by blast
  then show ?thesis
  proof cases
    case same
    with assms(1,2) show ?thesis by simp
  next
    case wide
    from wide(1) H have "(97 / 128) * of_int H < (of_int W :: rat)"
      by (simp add: pos_less_divide_eq)
    moreover from wide_crop_width [OF assms(2) wide(2)]
    have p0: "0 \<le> py_int p" and "of_int (py_int p) \<le> (97 / 128) * (of_int H :: rat)" .
    ultimately have "(of_int (py_int p) :: rat) < of_int W" by linarith
    then have lt: "cw < W" unfolding wide(3) by (simp only: of_int_less_iff)
    have "0 \<le> cw" using p0 by (simp add: wide(3))
    with lt assms(2) show ?thesis by (simp add: wide(4,5,6))
  next
    case tall
    from tall(1) H have "(of_int W :: rat) < (95 / 128) * of_int H"
      by (simp add: pos_divide_less_eq)
    moreover from tall_crop_height [OF assms(1) tall(3)]
    have h0: "0 \<le> py_int h" and "of_int (py_int h) \<le> (128 / 95) * (of_int W :: rat)" .
    ultimately have "(of_int (py_int h) :: rat) < of_int H" by linarith
    then have lt: "ch < H" unfolding tall(4) by (simp only: of_int_less_iff)
    have "0 \<le> ch" using h0 by (simp add: tall(4))
    with lt assms(1) show ?thesis by (simp add: tall(2,5,6))
  qed
qed

lemma crop_box_total:
  assumes "0 < W" and "W \<le> 2 ^ 32" and "0 < H" and "H \<le> 2 ^ 32"
  shows "\<exists>cw ch cx cy. crop_box W H = Some (cw, ch, cx, cy)"
proof -
  have W: "0 \<le> W" and H: "0 \<le> H" using assms by simp_all
  note w = of_int_bounds [OF W assms(2)]
  define q :: rat where "q = of_int W / of_int H"
  have h1: "(1::rat) \<le> of_int H" using assms(3) by simp
  have q0: "0 \<le> q" using w(1) h1 by (simp add: q_def)
  have "q \<le> of_int W / 1" unfolding q_def using w(1) h1 by (intro divide_left_mono) simp_all
  then have q1: "q \<le> 4294967296" using w(2) by simp
  have "\<bar>q\<bar> \<le> 2 ^ 40" using q0 q1 by (intro abs_le_2_40) linarith+
  then have fq: "fl q = Some (fl_raw q)" by (rule fl_ok)
  define r where "r = fl_raw q"
  have r0: "0 \<le> r" unfolding r_def using q0 by (rule fl_raw_nonneg)
  have r1: "r \<le> 4294967296" unfolding r_def using q1 by (rule fl_raw_le_2_32)
  have vr: "py_truediv (PInt W) (PInt H) = Some (PFloat r)"
    using assms(3) fq by (simp add: q_def r_def)
  have "\<bar>r - 3 / 4\<bar> \<le> 2 ^ 40" using r0 r1 by (intro abs_le_2_40) linarith+
  then have d: "py_sub (PFloat r) (PFloat (3 / 4)) = Some (PFloat (fl_raw (r - 3 / 4)))"
    by (simp add: fl_ok)
  from py_mul_const_ok [OF H assms(4), of "3 / 4"]
  obtain y where y: "py_mul (PInt H) (PFloat (3 / 4)) = Some (PFloat y)" by auto
  note f = to_float_ok [OF W assms(2)]
  have "\<bar>fl_raw (of_int W) * 4 / 3\<bar> \<le> 2 ^ 40" using f(2,3) by (intro abs_le_2_40) linarith+
  then have "\<bar>fl_raw (of_int W) / (3 / 4)\<bar> \<le> 2 ^ 40" by simp
  then have z: "py_truediv (PInt W) (PFloat (3 / 4)) = Some (PFloat (fl_raw (fl_raw (of_int W) / (3 / 4))))"
    using f(1) by (simp add: fl_ok)
  show ?thesis
    unfolding crop_box_def target_ratio vr d y z bind.simps Let_def by simp
qed

lemma plan_geometry_exact:
  assumes "0 < W" and "W \<le> 2 ^ 32" and "0 < H" and "H \<le> 2 ^ 32"
  shows "\<exists>g. plan_geometry W H = Some g
           \<and> canvas_size (crop_width g) (crop_height g) (border_size g)
               = Some (force_even (fst (canvas_as_specified (crop_width g) (crop_height g) (border_size g))),
                       snd (canvas_as_specified (crop_width g) (crop_height g) (border_size g)))"
proof -
  from crop_box_total [OF assms] obtain cw ch cx cy where box: "crop_box W H = Some (cw, ch, cx, cy)"
    by blast
  from crop_box_within [OF assms(1,3) box]
  have in_frame: "0 \<le> cw" "cw \<le> W" "0 \<le> ch" "ch \<le> H" by simp_all
  define cw' where "cw' = force_even cw"
  define ch' where "ch' = force_even ch"
  have cw': "even cw'" "0 \<le> cw'" "cw' \<le> 2 ^ 32"
    using in_frame(1,2) assms(2) force_even_le [of cw] force_even_nonneg [of cw]
    by (simp_all add: cw'_def force_even_even)
  have ch': "even ch'" "0 \<le> ch'" "ch' \<le> 2 ^ 32"
    using in_frame(3,4) assms(4) force_even_le [of ch] force_even_nonneg [of ch]
    by (simp_all add: ch'_def force_even_even)
  from border_metrics_total [OF cw'(2,3)] obtain r b
    where bm: "border_metrics cw' = Some (r, b)" and b: "1 \<le> b" "b \<le> 2 ^ 32"
    by blast
  note cs = canvas_size_exact [OF cw' ch' b]
  have "plan_geometry W H =
     Some \<lparr>crop_width = cw', crop_height = ch', crop_x = cx, crop_y = cy,
           radius = r, border_size = b,
           canvas_width = force_even (fst (canvas_as_specified cw' ch' b)),
           canvas_height = snd (canvas_as_specified cw' ch' b),
           paste_x = (force_even (fst (canvas_as_specified cw' ch' b)) - (cw' + b * 2)) div 2,
           paste_y = 0\<rparr>"
    unfolding plan_geometry_def box bind.simps Let_def prod.case cw'_def [symmetric]
      ch'_def [symmetric] bm cs ..
  then show ?thesis using cs by simp
qed

section \<open>Integers that are floats\<close>

lemma expo_1: "expo 1 = 0"
  by (rule expo_unique) simp_all

lemma flp_of_int:
  assumes "0 < n" and "n < 2 ^ 53"
  shows "flp (of_int n) = of_int n"
proof -
  define x :: rat where "x = of_int n"
  have x0: "0 < x" using assms(1) by (simp add: x_def)
  have "(1::rat) \<le> x" using assms(1) by (simp add: x_def)
  then have e0: "0 \<le> expo x" using expo_mono [of 1 x] by (simp add: expo_1)
  have "x < of_int (2 ^ 53)" unfolding x_def using assms(2) by (simp only: of_int_less_iff)
  then have "x < 2 ^ 53" by simp
  then have x1: "x < 2 powi 53" using powi_nonneg_eq [of 53] by simp
  have e1: "expo x < 53"
  proof (rule ccontr)
    assume "\<not> expo x < 53"
    then have "(2::rat) powi 53 \<le> 2 powi expo x" by (intro powi_mono) simp
    also have "\<dots> \<le> x" using x0 by (rule expo_lower)
    finally show False using x1 by simp
  qed
  define k where "k = nat (52 - expo x)"
  have q: "quantum x = - int k" using e0 e1 by (simp add: quantum_def k_def)
  have p: "(2::rat) powi (- int k) = 1 / 2 ^ k" using powi_neg_eq [of "int k"] by simp
  have "x / 2 powi quantum x = of_int (n * 2 ^ k)" unfolding q p by (simp add: x_def)
  then have "rne (x / 2 powi quantum x) = n * 2 ^ k" by (simp only: rne_of_int)
  then have "flp x = of_int (n * 2 ^ k) * 2 powi quantum x" by (simp add: flp_def)
  also have "\<dots> = x" unfolding q p by (simp add: x_def)
  finally show ?thesis by (simp add: x_def)
qed

lemma fl_raw_of_int:
  assumes "0 \<le> n" and "n < 2 ^ 53"
  shows "fl_raw (of_int n) = of_int n"
proof (cases "n = 0")
  case True
  then show ?thesis by (simp add: fl_raw_0)
next
  case False
  with assms(1) have "0 < n" by simp
  then show ?thesis using flp_of_int [OF _ assms(2)] by (simp add: fl_raw_def)
qed

section \<open>The crop height of a tall source, without floats\<close>

lemma tall_crop_height_exact:
  assumes "0 < W" and "W \<le> 2 ^ 32"
  shows "py_truediv (PInt W) (PFloat (3 / 4)) = Some h \<Longrightarrow> py_int h = (4 * W) div 3"
proof -
  assume h: "py_truediv (PInt W) (PFloat (3 / 4)) = Some h"
  define N where "N = (4 * W) div 3"
  define w :: rat where "w = of_int W"
  define y where "y = fl_raw (w * 4 / 3)"
  have W53: "W < 2 ^ 53" using assms(2) by simp
  have xW: "fl_raw (of_int W) = w" using assms(1) W53 by (simp add: fl_raw_of_int w_def)
  from h have hy: "h = PFloat y"
    by (auto simp: fl_Some_iff xW y_def w_def split: Option.bind_splits if_splits)
  have w0: "1 \<le> w" using assms(1) by (simp add: w_def)
  have "w \<le> of_int (2 ^ 32)" unfolding w_def using assms(2) by (simp only: of_int_le_iff)
  then have w1: "w \<le> 4294967296" by simp
  have N0: "0 \<le> N" using assms(1) by (simp add: N_def)
  have "N \<le> 4 * W" using assms(1) unfolding N_def by simp
  then have N53: "N < 2 ^ 53" using assms(2) by simp
  have "3 * N \<le> 4 * W" and "4 * W \<le> 3 * N + 2" unfolding N_def by presburger+
  then have "(of_int (3 * N) :: rat) \<le> of_int (4 * W)" and "(of_int (4 * W) :: rat) \<le> of_int (3 * N + 2)"
    by (simp_all only: of_int_le_iff)
  then have lo: "3 * of_int N \<le> 4 * w" and hi: "4 * w \<le> 3 * of_int N + 2"
    by (simp_all add: w_def)
  define z where "z = w * 4 / 3"
  have z: "3 * z = 4 * w" by (simp add: z_def)
  have "(of_int N :: rat) \<le> z" using lo z by linarith
  then have "fl_raw (of_int N) \<le> fl_raw z" by (rule fl_raw_mono)
  then have ge: "of_int N \<le> y" using N0 N53 by (simp add: fl_raw_of_int y_def z_def)
  have "z = 0 \<or> 1 / 8 \<le> z" using w0 z by linarith
  then have "fl_raw z \<le> z + z / 1000000000000000" by (rule fl_raw_err2)
  then have "y \<le> z + z / 1000000000000000" by (simp add: y_def z_def)
  then have lt: "y < of_int N + 1" using hi z w1 by linarith
  have "0 \<le> y" using ge N0 by (simp add: order_trans [of 0 "of_int N" y])
  then have "py_int h = \<lfloor>y\<rfloor>" by (simp add: hy)
  also have "\<lfloor>y\<rfloor> = N" using ge lt by (simp add: floor_unique)
  finally show ?thesis by (simp add: N_def)
qed

section \<open>Claims about the crop\<close>

lemma plan_400x800:
  "plan_geometry 400 800 =
     Some \<lparr>crop_width = 400, crop_height = 532, crop_x = 0, crop_y = 0,
           radius = 17, border_size = 2, canvas_width = 480, canvas_height = 640,
           paste_x = 38, paste_y = 0\<rparr>"
  by code_simp

lemma plan_401x800:
  "plan_geometry 401 800 =
     Some \<lparr>crop_width = 400, crop_height = 534, crop_x = 0, crop_y = 0,
           radius = 17, border_size = 2, canvas_width = 480, canvas_height = 640,
           paste_x = 38, paste_y = 0\<rparr>"
  by code_simp

lemma plan_geometry_total:
  assumes "0 < W" and "W \<le> 2 ^ 32" and "0 < H" and "H \<le> 2 ^ 32"
  shows "\<exists>g. plan_geometry W H = Some g"
  using plan_geometry_exact [OF assms] by blast

text \<open>
  Claim C4. Whenever the geometry computation produces a plan, the crop width, the crop
  height, the canvas width and the canvas height are all even; and for every width and
  height from 1 to \<open>2\<^sup>3\<^sup>2\<close> it does produce a plan.
\<close>

theorem C4_dimensions_even:
  "(plan_geometry W H = Some g \<longrightarrow>
      even (crop_width g) \<and> even (crop_height g)
      \<and> even (canvas_width g) \<and> even (canvas_height g))
   \<and> (0 < W \<and> W \<le> 2 ^ 32 \<and> 0 < H \<and> H \<le> 2 ^ 32 \<longrightarrow>
        (\<exists>p. plan_geometry W H = Some p
           \<and> even (crop_width p) \<and> even (crop_height p)
           \<and> even (canvas_width p) \<and> even (canvas_height p)))"
proof -
  have general: "even (crop_width p) \<and> even (crop_height p)
      \<and> even (canvas_width p) \<and> even (canvas_height p)"
    if "plan_geometry W H = Some p" for p
  proof -
    from that obtain cw ch r where
      "crop_width p = force_even cw" and "crop_height p = force_even ch"
      and "canvas_size (crop_width p) (crop_height p) (border_size p)
             = Some (canvas_width p, canvas_height p)"
      by (rule plan_geometry_parts)
    then show ?thesis using canvas_size_even by (simp add: force_even_even)
  qed
  then show ?thesis using plan_geometry_total [of W H] by blast
qed

theorem C4_dimensions_even_witness:
  "plan_geometry 800 400 \<noteq> None
   \<and> (0::int) < 800 \<and> (800::int) \<le> 2 ^ 32 \<and> (0::int) < 400 \<and> (400::int) \<le> 2 ^ 32
   \<and> even (crop_width (the (plan_geometry 800 400)))
   \<and> even (crop_height (the (plan_geometry 800 400)))
   \<and> even (canvas_width (the (plan_geometry 800 400)))
   \<and> even (canvas_height (the (plan_geometry 800 400)))
   \<and> canvas_width (the (plan_geometry 800 400)) = 360"
  using C4_dimensions_even [of 800 400 "the (plan_geometry 800 400)"]
  by (simp add: plan_800x400)

text \<open>
  Claim C9. For a source of positive width \<open>W\<close> and height \<open>H\<close>, the crop rectangle of
  the plan lies within the source frame, in each of the three branches: its offsets are
  not negative, the vertical offset is 0, and it ends at or before the right and the
  lower edge. The crop sizes themselves are not negative. For every width and height
  from 1 to \<open>2\<^sup>3\<^sup>2\<close> there is such a plan.
\<close>

theorem C9_crop_within_frame:
  "(0 < W \<and> 0 < H \<and> plan_geometry W H = Some g \<longrightarrow>
      0 \<le> crop_x g \<and> crop_y g = 0
      \<and> crop_x g + crop_width g \<le> W \<and> crop_height g \<le> H
      \<and> 0 \<le> crop_width g \<and> 0 \<le> crop_height g)
   \<and> (0 < W \<and> W \<le> 2 ^ 32 \<and> 0 < H \<and> H \<le> 2 ^ 32 \<longrightarrow>
        (\<exists>p. plan_geometry W H = Some p
           \<and> 0 \<le> crop_x p \<and> crop_y p = 0
           \<and> crop_x p + crop_width p \<le> W \<and> crop_height p \<le> H
           \<and> 0 \<le> crop_width p \<and> 0 \<le> crop_height p))"
proof -
  have general: "0 \<le> crop_x p \<and> crop_y p = 0
      \<and> crop_x p + crop_width p \<le> W \<and> crop_height p \<le> H
      \<and> 0 \<le> crop_width p \<and> 0 \<le> crop_height p"
    if "0 < W" and "0 < H" and "plan_geometry W H = Some p" for p
  proof -
    from that(3) obtain cw ch r where box: "crop_box W H = Some (cw, ch, crop_x p, crop_y p)"
      and cw: "crop_width p = force_even cw" and ch: "crop_height p = force_even ch"
      by (rule plan_geometry_parts)
    from crop_box_within [OF that(1,2) box] show ?thesis
      using force_even_le [of cw] force_even_le [of ch]
        force_even_nonneg [of cw] force_even_nonneg [of ch]
      by (simp add: cw ch)
  qed
  then show ?thesis using plan_geometry_total [of W H] by blast
qed

theorem C9_crop_within_frame_witness:
  "(0::int) < 800 \<and> (800::int) \<le> 2 ^ 32 \<and> (0::int) < 400 \<and> (400::int) \<le> 2 ^ 32
   \<and> plan_geometry 800 400 \<noteq> None
   \<and> crop_x (the (plan_geometry 800 400)) = 250
   \<and> crop_x (the (plan_geometry 800 400)) + crop_width (the (plan_geometry 800 400)) \<le> 800
   \<and> crop_height (the (plan_geometry 800 400)) \<le> 400
   \<and> crop_y (the (plan_geometry 800 400)) = 0"
  using C9_crop_within_frame [of 800 400 "the (plan_geometry 800 400)"]
  by (simp add: plan_800x400)

text \<open>
  Claim C3 says that for every input with \<open>W / H < 3/4 - 0.01\<close> the crop keeps the full
  width. The crop width is forced to an even number like the crop height, so a source
  of odd width loses its last column: for 401x800 the crop is 400 wide.
\<close>

theorem C3_odd_width_counterexample:
  "(of_int 401 / of_int 800 :: rat) < 3 / 4 - 1 / 100
   \<and> crop_width (the (plan_geometry 401 800)) \<noteq> 401"
  by (simp add: plan_401x800)

text \<open>
  Claim C3 as amended. For every input with \<open>W / H < 3/4 - 0.01\<close> for which the
  computation produces a plan, the crop height is \<open>int(W / 0.75)\<close> decremented to even,
  the crop width is \<open>W\<close> decremented to even, and the crop is anchored at the top left:
  both offsets are exactly 0. For every such width and height from 1 to \<open>2\<^sup>3\<^sup>2\<close> there
  is a plan, and \<open>int(W / 0.75)\<close> is the integer quotient of \<open>4 W\<close> by 3. For 400x800
  the crop is 400x532 at offset 0, not at \<open>(800 - 532) / 2\<close>.
\<close>

theorem C3_tall_input_top_anchored:
  "(of_int W / of_int H < (3 / 4 - 1 / 100 :: rat) \<and> plan_geometry W H = Some g \<longrightarrow>
      (\<exists>h. py_truediv (PInt W) (PFloat (3 / 4)) = Some h
           \<and> crop_height g = force_even (py_int h))
      \<and> crop_width g = force_even W \<and> crop_x g = 0 \<and> crop_y g = 0)
   \<and> (0 < W \<and> W \<le> 2 ^ 32 \<and> 0 < H \<and> H \<le> 2 ^ 32
       \<and> of_int W / of_int H < (3 / 4 - 1 / 100 :: rat) \<longrightarrow>
        (\<exists>p. plan_geometry W H = Some p
           \<and> crop_height p = force_even ((4 * W) div 3)
           \<and> crop_width p = force_even W \<and> crop_x p = 0 \<and> crop_y p = 0))
   \<and> (\<exists>p. plan_geometry 400 800 = Some p
          \<and> crop_width p = 400 \<and> crop_height p = 532 \<and> crop_x p = 0 \<and> crop_y p = 0
          \<and> crop_y p \<noteq> (800 - 532) div 2)"
proof -
  have general: "(\<exists>h. py_truediv (PInt W) (PFloat (3 / 4)) = Some h
           \<and> crop_height p = force_even (py_int h))
      \<and> crop_width p = force_even W \<and> crop_x p = 0 \<and> crop_y p = 0"
    if a: "of_int W / of_int H < (3 / 4 - 1 / 100 :: rat)" and b: "plan_geometry W H = Some p"
    for p
  proof -
    from b obtain cw ch r where box: "crop_box W H = Some (cw, ch, crop_x p, crop_y p)"
      and cw: "crop_width p = force_even cw" and ch: "crop_height p = force_even ch"
      by (rule plan_geometry_parts)
    from a have "(of_int W / of_int H :: rat) < 37 / 50" by simp
    from crop_box_tall [OF box this] cw ch show ?thesis by auto
  qed
  have bounded: "\<exists>p. plan_geometry W H = Some p
           \<and> crop_height p = force_even ((4 * W) div 3)
           \<and> crop_width p = force_even W \<and> crop_x p = 0 \<and> crop_y p = 0"
    if "0 < W" and "W \<le> 2 ^ 32" and "0 < H" and "H \<le> 2 ^ 32"
      and a: "of_int W / of_int H < (3 / 4 - 1 / 100 :: rat)"
  proof -
    from plan_geometry_total [OF that(1-4)] obtain p where p: "plan_geometry W H = Some p" ..
    from general [OF a p] obtain h where h: "py_truediv (PInt W) (PFloat (3 / 4)) = Some h"
      and rest: "crop_height p = force_even (py_int h)"
        "crop_width p = force_even W" "crop_x p = 0" "crop_y p = 0"
      by blast
    from tall_crop_height_exact [OF that(1,2) h] p rest show ?thesis by simp
  qed
  have example: "\<exists>p. plan_geometry 400 800 = Some p
          \<and> crop_width p = 400 \<and> crop_height p = 532 \<and> crop_x p = 0 \<and> crop_y p = 0
          \<and> crop_y p \<noteq> (800 - 532) div 2"
    by (simp add: plan_400x800)
  from general bounded example show ?thesis by blast
qed

theorem C3_tall_input_top_anchored_witness:
  "(of_int 401 / of_int 800 :: rat) < 3 / 4 - 1 / 100
   \<and> (0::int) < 401 \<and> (401::int) \<le> 2 ^ 32 \<and> (0::int) < 800 \<and> (800::int) \<le> 2 ^ 32
   \<and> plan_geometry 401 800 \<noteq> None
   \<and> crop_width (the (plan_geometry 401 800)) = force_even 401
   \<and> crop_height (the (plan_geometry 401 800)) = force_even ((4 * 401) div 3)
   \<and> crop_x (the (plan_geometry 401 800)) = 0
   \<and> crop_y (the (plan_geometry 401 800)) = 0"
  using C3_tall_input_top_anchored [of 401 800 "the (plan_geometry 401 800)"]
  by (simp add: plan_401x800 force_even_def)

section \<open>Claims about the canvas\<close>

lemma plan_1680x1050:
  "plan_geometry 1680 1050 =
     Some \<lparr>crop_width = 786, crop_height = 1050, crop_x = 446, crop_y = 0,
           radius = 34, border_size = 4, canvas_width = 944, canvas_height = 1260,
           paste_x = 75, paste_y = 0\<rparr>"
  by code_simp

lemma specified_786x1050: "canvas_as_specified 786 1050 4 = (945, 1260)"
  by code_simp

lemma specified_300x400: "canvas_as_specified 300 400 2 = (360, 480)"
  by code_simp

text \<open>
  Claim C1 gives the canvas as \<open>canvasHeight = round(cropHeight \<cdot> 1.2 / 4) \<cdot> 4\<close> and
  \<open>canvasWidth = floor(canvasHeight / 4) \<cdot> 3\<close>, widened to the content where that is
  wider. The code then forces both canvas dimensions to even numbers. For a 1680x1050
  source the crop is 786x1050 and the formulas give 945x1260, but the canvas of the plan
  is 944x1260.
\<close>

theorem C1_odd_canvas_width_counterexample:
  "canvas_as_specified (crop_width (the (plan_geometry 1680 1050)))
       (crop_height (the (plan_geometry 1680 1050)))
       (border_size (the (plan_geometry 1680 1050))) = (945, 1260)
   \<and> canvas_width (the (plan_geometry 1680 1050)) = 944
   \<and> canvas_height (the (plan_geometry 1680 1050)) = 1260"
  by (simp add: plan_1680x1050 specified_786x1050)

text \<open>
  Claim C1 as amended. For every width and height from 1 to \<open>2\<^sup>3\<^sup>2\<close> the computation
  produces a plan whose canvas height is the one of the formulas, evaluated in exact
  arithmetic, and whose canvas width is the one of the formulas decremented to even.
  For 800x400 the crop is 300x400 and the canvas is 360x480.
\<close>

theorem C1_canvas_formula:
  "(0 < W \<and> W \<le> 2 ^ 32 \<and> 0 < H \<and> H \<le> 2 ^ 32 \<longrightarrow>
      (\<exists>g. plan_geometry W H = Some g
         \<and> canvas_width g
             = force_even (fst (canvas_as_specified (crop_width g) (crop_height g) (border_size g)))
         \<and> canvas_height g
             = snd (canvas_as_specified (crop_width g) (crop_height g) (border_size g))))
   \<and> (\<exists>g. plan_geometry 800 400 = Some g
          \<and> crop_width g = 300 \<and> crop_height g = 400
          \<and> canvas_width g = 360 \<and> canvas_height g = 480
          \<and> canvas_as_specified (crop_width g) (crop_height g) (border_size g) = (360, 480))"
proof -
  have bounded: "\<exists>g. plan_geometry W H = Some g
         \<and> canvas_width g
             = force_even (fst (canvas_as_specified (crop_width g) (crop_height g) (border_size g)))
         \<and> canvas_height g
             = snd (canvas_as_specified (crop_width g) (crop_height g) (border_size g))"
    if "0 < W" and "W \<le> 2 ^ 32" and "0 < H" and "H \<le> 2 ^ 32"
  proof -
    from plan_geometry_exact [OF that] obtain g where g: "plan_geometry W H = Some g"
      and exact: "canvas_size (crop_width g) (crop_height g) (border_size g)
               = Some (force_even (fst (canvas_as_specified (crop_width g) (crop_height g) (border_size g))),
                       snd (canvas_as_specified (crop_width g) (crop_height g) (border_size g)))"
      by blast
    from g obtain cw ch r where
      "canvas_size (crop_width g) (crop_height g) (border_size g)
         = Some (canvas_width g, canvas_height g)"
      by (rule plan_geometry_parts)
    with exact g show ?thesis by auto
  qed
  have example: "\<exists>g. plan_geometry 800 400 = Some g
          \<and> crop_width g = 300 \<and> crop_height g = 400
          \<and> canvas_width g = 360 \<and> canvas_height g = 480
          \<and> canvas_as_specified (crop_width g) (crop_height g) (border_size g) = (360, 480)"
    by (simp add: plan_800x400 specified_300x400)
  from bounded example show ?thesis by blast
qed

theorem C1_canvas_formula_witness:
  "(0::int) < 1680 \<and> (1680::int) \<le> 2 ^ 32 \<and> (0::int) < 1050 \<and> (1050::int) \<le> 2 ^ 32
   \<and> canvas_width (the (plan_geometry 1680 1050)) = force_even 945
   \<and> canvas_height (the (plan_geometry 1680 1050)) = 1260"
  using C1_canvas_formula [of 1680 1050]
  by (simp add: plan_1680x1050 specified_786x1050)

end
